theory Spec2Isabelle
  imports Complex_Main
begin

section \<open>Group-sparse covariance estimation: the model\<close>

text \<open>
  A shallow embedding of \<^verbatim>\<open>nilearn/group_sparse_covariance.py\<close>.

  Numbers. The arrays of the source hold IEEE doubles; here they hold reals, so every
  statement below is one of exact arithmetic. Where the source divides by zero numpy
  stores inf or nan and goes on, while a quotient by zero is \<open>0\<close> here: the two
  differ in the numbers they store, not in the control flow or in which entries are
  written. The one theorem whose content is the value of a quotient, the exactness of
  \<^verbatim>\<open>update_submatrix\<close>, names the divisor and asks it to be non-zero.

  Arrays. A one-dimensional array is a list, a two-dimensional array the list of its
  rows. The three-dimensional stacks \<^verbatim>\<open>emp_covs\<close>, \<^verbatim>\<open>omega\<close>, \<^verbatim>\<open>W\<close>, \<^verbatim>\<open>Winv\<close> of shape
  \<^verbatim>\<open>(n, n, n_tasks)\<close> are only ever used through their slices \<^verbatim>\<open>[..., k]\<close>; they are lists
  of matrices indexed by the task \<open>k\<close>. The buffers \<^verbatim>\<open>y\<close> and \<^verbatim>\<open>u\<close> of shape
  \<^verbatim>\<open>(n_tasks, n - 1)\<close> are lists of vectors indexed by the task.
\<close>

type_synonym vec = "real list"
type_synonym matrix = "real list list"

definition mat :: "nat \<Rightarrow> nat \<Rightarrow> (nat \<Rightarrow> nat \<Rightarrow> real) \<Rightarrow> matrix" where
  \<comment> \<open>the array of shape \<open>(r, c)\<close> with entry \<open>f i j\<close> at \<open>[i, j]\<close>\<close>
  "mat r c f = map (\<lambda>i. map (\<lambda>j. f i j) [0..<c]) [0..<r]"

definition ncols :: "matrix \<Rightarrow> nat" where
  "ncols M = (case M of [] \<Rightarrow> 0 | r # _ \<Rightarrow> length r)"

definition col :: "matrix \<Rightarrow> nat \<Rightarrow> vec" where
  \<comment> \<open>\<^verbatim>\<open>M[:, j]\<close>\<close>
  "col M j = map (\<lambda>r. r ! j) M"

definition transpose_m :: "matrix \<Rightarrow> matrix" where
  \<comment> \<open>\<^verbatim>\<open>M.T\<close>\<close>
  "transpose_m M = mat (ncols M) (length M) (\<lambda>i j. M ! j ! i)"

definition delete_at :: "nat \<Rightarrow> 'a list \<Rightarrow> 'a list" where
  \<comment> \<open>the slices \<^verbatim>\<open>[:m]\<close> and \<^verbatim>\<open>[m + 1:]\<close> put side by side\<close>
  "delete_at m xs = take m xs @ drop (m + 1) xs"

definition dot :: "vec \<Rightarrow> vec \<Rightarrow> real" where
  \<comment> \<open>\<^verbatim>\<open>np.dot\<close> of two one-dimensional arrays (of one length)\<close>
  "dot xs ys = sum_list (map2 (\<lambda>a b. a * b) xs ys)"

definition vec_sub :: "vec \<Rightarrow> vec \<Rightarrow> vec" where
  "vec_sub xs ys = map2 (\<lambda>a b. a - b) xs ys"

definition mat_add :: "matrix \<Rightarrow> matrix \<Rightarrow> matrix" where
  "mat_add A B = map2 (\<lambda>r s. map2 (\<lambda>a b. a + b) r s) A B"

definition mat_sub :: "matrix \<Rightarrow> matrix \<Rightarrow> matrix" where
  "mat_sub A B = map2 (\<lambda>r s. map2 (\<lambda>a b. a - b) r s) A B"

definition outer :: "vec \<Rightarrow> vec \<Rightarrow> matrix" where
  \<comment> \<open>\<^verbatim>\<open>np.outer\<close>\<close>
  "outer xs ys = map (\<lambda>a. map (\<lambda>b. a * b) ys) xs"

definition vec_mat :: "vec \<Rightarrow> matrix \<Rightarrow> vec" where
  \<comment> \<open>\<^verbatim>\<open>np.dot(V, M)\<close> for a one-dimensional \<open>V\<close> and a two-dimensional \<open>M\<close>\<close>
  "vec_mat xs M = map (\<lambda>j. dot xs (col M j)) [0..<ncols M]"

definition mat_vec :: "matrix \<Rightarrow> vec \<Rightarrow> vec" where
  \<comment> \<open>\<^verbatim>\<open>np.dot(M, U)\<close> for a two-dimensional \<open>M\<close> and a one-dimensional \<open>U\<close>\<close>
  "mat_vec M xs = map (\<lambda>r. dot r xs) M"

definition mat_mul :: "matrix \<Rightarrow> matrix \<Rightarrow> matrix" where
  \<comment> \<open>\<^verbatim>\<open>np.dot\<close> of two two-dimensional arrays\<close>
  "mat_mul A B = map (\<lambda>r. vec_mat r B) A"

definition eye :: "nat \<Rightarrow> matrix" where
  \<comment> \<open>\<^verbatim>\<open>np.eye\<close>\<close>
  "eye n = mat n n (\<lambda>i j. if i = j then 1 else 0)"

definition set_col :: "matrix \<Rightarrow> nat \<Rightarrow> vec \<Rightarrow> matrix" where
  \<comment> \<open>\<^verbatim>\<open>M[:, j] = v\<close>\<close>
  "set_col M j v = map2 (\<lambda>r x. r[j := x]) M v"

definition set_entry :: "matrix \<Rightarrow> nat \<Rightarrow> nat \<Rightarrow> real \<Rightarrow> matrix" where
  \<comment> \<open>\<^verbatim>\<open>M[i, j] = x\<close>\<close>
  "set_entry M i j x = M[i := (M ! i)[j := x]]"

definition is_square :: "nat \<Rightarrow> matrix \<Rightarrow> bool" where
  \<comment> \<open>the array has shape \<open>(n, n)\<close>\<close>
  "is_square n M = (length M = n \<and> list_all (\<lambda>r. length r = n) M)"

definition is_symmetric :: "matrix \<Rightarrow> bool" where
  \<comment> \<open>a square array with \<^verbatim>\<open>M[i, j] == M[j, i]\<close> everywhere\<close>
  "is_symmetric M = (M = mat (length M) (length M) (\<lambda>i j. M ! j ! i))"

definition is_inverse :: "matrix \<Rightarrow> matrix \<Rightarrow> bool" where
  \<comment> \<open>\<open>B\<close> is the exact two-sided inverse of the square array \<open>A\<close>\<close>
  "is_inverse A B =
     (is_square (length A) A \<and> is_square (length A) B
      \<and> mat_mul A B = eye (length A) \<and> mat_mul B A = eye (length A))"

subsection \<open>symmetrize\<close>

definition symmetrize :: "matrix \<Rightarrow> matrix" where
  \<comment> \<open>\<^verbatim>\<open>M[...] = M + M.T\<close>, then \<^verbatim>\<open>M[...] /= 2.\<close>; the value returned is the new content
      of the array the source changes in place\<close>
  "symmetrize M = map (map (\<lambda>x. x / 2)) (mat_add M (transpose_m M))"

subsection \<open>Maintaining the submatrix and its inverse\<close>

definition update_vectors :: "matrix \<Rightarrow> nat \<Rightarrow> vec \<times> vec" where
  "update_vectors full n =
     (let v = take (n + 1) (col full n) @ drop (n + 2) (col full n);
          h = take (n + 1) (full ! n) @ drop (n + 2) (full ! n)
      in (h, v))"

definition row_denominator :: "matrix \<Rightarrow> matrix \<Rightarrow> matrix \<Rightarrow> nat \<Rightarrow> real" where
  \<comment> \<open>the divisor \<^verbatim>\<open>1. + np.dot(V, coln)\<close> of the row step\<close>
  "row_denominator full sub sub_inv p =
     (let n = p - 1;
          h = fst (update_vectors full n);
          coln = col sub_inv n;
          V = vec_sub h (sub ! n)
      in 1 + dot V coln)"

definition change_row :: "matrix \<Rightarrow> matrix \<Rightarrow> matrix \<Rightarrow> nat \<Rightarrow> matrix \<times> matrix" where
  \<comment> \<open>the first half of \<^verbatim>\<open>update_submatrix\<close>, under the comment \<^verbatim>\<open># change row\<close>\<close>
  "change_row full sub sub_inv p =
     (let n = p - 1;
          h = fst (update_vectors full n);
          coln = col sub_inv n;
          V = vec_sub h (sub ! n);
          coln = map (\<lambda>x. x / (1 + dot V coln)) coln;
          sub_inv = mat_sub sub_inv (outer coln (vec_mat V sub_inv));
          sub = sub[n := h]
      in (sub, sub_inv))"

definition change_column :: "matrix \<Rightarrow> matrix \<Rightarrow> matrix \<Rightarrow> nat \<Rightarrow> matrix \<times> matrix" where
  \<comment> \<open>the second half of \<^verbatim>\<open>update_submatrix\<close>, under the comment \<^verbatim>\<open># change column\<close>\<close>
  "change_column full sub sub_inv p =
     (let n = p - 1;
          v = snd (update_vectors full n);
          rown = sub_inv ! n;
          U = vec_sub v (col sub n);
          rown = map (\<lambda>x. x / (1 + dot rown U)) rown;
          sub_inv = mat_sub sub_inv (outer (mat_vec sub_inv U) rown);
          sub = set_col sub n v
      in (sub, sub_inv))"

definition update_submatrix :: "matrix \<Rightarrow> matrix \<Rightarrow> matrix \<Rightarrow> nat \<Rightarrow> matrix \<times> matrix" where
  \<comment> \<open>called with \<open>1 \<le> p\<close> only; returns the new contents of \<^verbatim>\<open>sub\<close> and \<^verbatim>\<open>sub_inv\<close>,
      which the source changes in place\<close>
  "update_submatrix full sub sub_inv p =
     (let (sub, sub_inv) = change_row full sub sub_inv p
      in change_column full sub sub_inv p)"

definition true_sub :: "matrix \<Rightarrow> nat \<Rightarrow> matrix" where
  \<comment> \<open>the array \<^verbatim>\<open>true_sub\<close> that \<^verbatim>\<open>assert_submatrix\<close> builds from four blocks of \<^verbatim>\<open>full\<close>:
      \<^verbatim>\<open>full\<close> without row \<open>n\<close> and column \<open>n\<close>\<close>
  "true_sub full n =
     map (\<lambda>r. take n r @ drop (n + 1) r) (take n full)
     @ map (\<lambda>r. take n r @ drop (n + 1) r) (drop (n + 1) full)"

fun advance_pivots :: "matrix \<Rightarrow> nat \<Rightarrow> matrix \<times> matrix \<Rightarrow> matrix \<times> matrix" where
  \<comment> \<open>the state of \<^verbatim>\<open>(sub, sub_inv)\<close> after \<^verbatim>\<open>update_submatrix\<close> has been run for the pivots
      \<open>1, \<dots>, p\<close> in turn on one unchanging \<^verbatim>\<open>full\<close>, from the state given for pivot \<open>0\<close>\<close>
  "advance_pivots full 0 st = st"
| "advance_pivots full (Suc p) st =
     (case advance_pivots full p st of (sub, sub_inv) \<Rightarrow> update_submatrix full sub sub_inv (Suc p))"

subsection \<open>Arguments, library calls and exceptions\<close>

datatype py_value = PyInt int | PyFloat real | PyOther
  \<comment> \<open>what the caller passes as \<^verbatim>\<open>rho\<close>: an \<^verbatim>\<open>int\<close>, a \<^verbatim>\<open>float\<close>, or an object of any other type\<close>

record ndarray2 =
  shape0 :: nat
  shape1 :: nat
  samples :: matrix

datatype signals_arg = NotIterable | Iterable "ndarray2 list" | Generator "ndarray2 list"
  \<comment> \<open>what the caller passes as \<^verbatim>\<open>signals\<close>: an object without \<^verbatim>\<open>__iter__\<close>; a list (or
      tuple) of two-dimensional arrays; or an iterable that yields these arrays but has
      no \<^verbatim>\<open>len()\<close>, such as a generator\<close>

datatype value_error =
    rho_not_positive \<comment> \<open>"Regularization parameter rho must be a positive number."\<close>
  | signals_not_iterable \<comment> \<open>"'signals' input argument must be an iterable."\<close>
  | features_differ \<comment> \<open>"All tasks must have the same number of features."\<close>
  | negative_dimensions \<comment> \<open>raised by \<^verbatim>\<open>np.ndarray\<close> for a negative entry in \<^verbatim>\<open>shape\<close>\<close>

datatype error =
    ValueError value_error
  | TypeError \<comment> \<open>raised by \<^verbatim>\<open>len(signals)\<close> for an object without a length\<close>
  | IndexError \<comment> \<open>raised by \<^verbatim>\<open>signals[0]\<close> for an empty list\<close>
  | AssertionError
  | RuntimeError \<comment> \<open>raised by \<^verbatim>\<open>scipy.optimize.newton\<close> when it has used up \<^verbatim>\<open>maxiter\<close> iterations\<close>

text \<open>
  The functions the module imports are parameters of the model. Each is a function of its
  arguments. The root-finder either returns a number or raises \<^verbatim>\<open>RuntimeError\<close> (it
  does so when \<^verbatim>\<open>maxiter\<close> iterations have not met its tolerance); the call in the source
  is not inside a \<^verbatim>\<open>try\<close>, so the exception ends the whole call of
  \<^verbatim>\<open>group_sparse_covariance\<close>. Its result is an option, \<open>None\<close> standing for the
  exception. An exception raised inside one of the other functions is outside the
  model. The covariance estimator and the matrix inversion return an array of the shape
  of the slot their result is stored in; they are given by the entries of that array.
\<close>

record libs =
  empirical_covariance :: "ndarray2 \<Rightarrow> bool \<Rightarrow> nat \<Rightarrow> nat \<Rightarrow> real"
    \<comment> \<open>\<^verbatim>\<open>sklearn.covariance.empirical_covariance(s, assume_centered=...)\<close>, entry \<open>[i, j]\<close>\<close>
  linalg_inv :: "matrix \<Rightarrow> nat \<Rightarrow> nat \<Rightarrow> real"
    \<comment> \<open>\<^verbatim>\<open>np.linalg.inv(M)\<close>, entry \<open>[i, j]\<close>\<close>
  newton :: "(real \<Rightarrow> real) \<Rightarrow> real \<Rightarrow> (real \<Rightarrow> real) \<Rightarrow> nat \<Rightarrow> real option"
    \<comment> \<open>\<^verbatim>\<open>scipy.optimize.newton(func, x0, fprime=..., maxiter=...)\<close>, with \<^verbatim>\<open>args\<close> already
        applied to \<^verbatim>\<open>func\<close> and \<^verbatim>\<open>fprime\<close>; \<open>None\<close> when the call raises \<^verbatim>\<open>RuntimeError\<close>\<close>
  fast_logdet :: "matrix \<Rightarrow> real"
  is_spd :: "matrix \<Rightarrow> nat option \<Rightarrow> bool"
    \<comment> \<open>\<^verbatim>\<open>is_spd(M)\<close> and \<^verbatim>\<open>is_spd(M, decimal=d)\<close> of the module \<^verbatim>\<open>.testing\<close>\<close>
  almost_equal :: "matrix \<Rightarrow> matrix \<Rightarrow> nat \<Rightarrow> bool"
    \<comment> \<open>\<^verbatim>\<open>np.testing.assert_almost_equal(a, b, decimal=d)\<close> does not raise\<close>

definition isinstance_int_float :: "py_value \<Rightarrow> bool" where
  "isinstance_int_float v = (case v of PyInt _ \<Rightarrow> True | PyFloat _ \<Rightarrow> True | PyOther \<Rightarrow> False)"

definition number_of :: "py_value \<Rightarrow> real" where
  "number_of v = (case v of PyInt i \<Rightarrow> real_of_int i | PyFloat r \<Rightarrow> r | PyOther \<Rightarrow> 0)"

definition assert_submatrix :: "libs \<Rightarrow> matrix \<Rightarrow> matrix \<Rightarrow> nat \<Rightarrow> bool" where
  \<comment> \<open>the assertion of \<^verbatim>\<open>assert_submatrix(full, sub, n)\<close> holds\<close>
  "assert_submatrix L full sub n = almost_equal L (true_sub full n) sub 7"

subsection \<open>The cost and the trust-region equation\<close>

definition group_sparse_covariance_cost ::
  "libs \<Rightarrow> nat \<Rightarrow> vec \<Rightarrow> real \<Rightarrow> matrix list \<Rightarrow> matrix list \<Rightarrow> real" where
  \<comment> \<open>\<^verbatim>\<open>_group_sparse_covariance_cost\<close>, printing left out\<close>
  "group_sparse_covariance_cost L n_tasks n_samples rho omega emp_covs =
     (let ll = sum_list (map (\<lambda>k. n_samples ! k *
                 (fast_logdet L (omega ! k)
                  - sum_list (map sum_list
                      (map2 (\<lambda>r s. map2 (\<lambda>a b. a * b) r s) (omega ! k) (emp_covs ! k)))))
               [0..<n_tasks]);
          n = (case omega of [] \<Rightarrow> 0 | M # _ \<Rightarrow> length M);
          l2 = mat n n (\<lambda>i j. sqrt (sum_list (map (\<lambda>M. (M ! i ! j)\<^sup>2) omega)));
          l12 = sum_list (map sum_list l2) - sum_list (map (\<lambda>i. l2 ! i ! i) [0..<n])
      in - (ll - rho * l12))"

definition quad_trust_region :: "real \<Rightarrow> vec \<Rightarrow> vec \<Rightarrow> vec \<Rightarrow> real \<Rightarrow> real" where
  "quad_trust_region alpha q two_ccq cc rho2 =
     rho2 - sum_list (map2 (\<lambda>c qk. c / (1 + alpha * qk)\<^sup>2) cc q)"

definition quad_trust_region_deriv :: "real \<Rightarrow> vec \<Rightarrow> vec \<Rightarrow> vec \<Rightarrow> real \<Rightarrow> real" where
  "quad_trust_region_deriv alpha q two_ccq cc rho2 =
     sum_list (map2 (\<lambda>t qk. t / (1 + alpha * qk) ^ 3) two_ccq q)"

subsection \<open>The solver\<close>

text \<open>
  The arrays the optimisation loop of \<^verbatim>\<open>group_sparse_covariance\<close> works on, the cost trace
  and the warnings emitted so far form the state; each piece of the loop returns the
  state it leaves. The names the loop only reads are collected in \<open>solver_env\<close>.
\<close>

record solver_state =
  emp_covs :: "matrix list"
  omega :: "matrix list"
  W :: "matrix list"
  Winv :: "matrix list"
  y :: "vec list"
  u :: "vec list"
  costs :: "real list"
  warnings :: "string list"

record solver_env =
  n_tasks :: nat
  n_var :: nat
  n_samples :: vec
  rho :: real
  return_costs :: bool
  debug :: bool

definition initial_submatrices :: "libs \<Rightarrow> solver_env \<Rightarrow> solver_state \<Rightarrow> error + solver_state" where
  \<comment> \<open>the branch \<^verbatim>\<open>p == 0\<close>; a failing assertion for some task ends the run\<close>
  "initial_submatrices L E s =
     (let W' = map (\<lambda>M. map (drop 1) (drop 1 M)) (omega s);
          Winv' = map (\<lambda>Wk. mat (n_var E - 1) (n_var E - 1) (linalg_inv L Wk)) W'
      in if debug E \<and>
            \<not> list_all (\<lambda>k. almost_equal L (mat_mul (Winv' ! k) (W' ! k)) (eye (length (Winv' ! k))) 12
                            \<and> assert_submatrix L (omega s ! k) (W' ! k) 0)
                 [0..<length W']
         then Inl AssertionError
         else Inr (s\<lparr>W := W', Winv := Winv'\<rparr>))"

definition advance_submatrices ::
  "libs \<Rightarrow> solver_env \<Rightarrow> nat \<Rightarrow> solver_state \<Rightarrow> error + solver_state" where
  \<comment> \<open>the branch \<^verbatim>\<open>p != 0\<close>\<close>
  "advance_submatrices L E p s =
     (let upd = map (\<lambda>k. update_submatrix (omega s ! k) (W s ! k) (Winv s ! k) p) [0..<n_tasks E];
          W' = map fst upd;
          Winv' = map snd upd
      in if debug E \<and>
            \<not> (list_all (\<lambda>k. assert_submatrix L (omega s ! k) (W' ! k) p
                              \<and> almost_equal L (mat_mul (Winv' ! k) (W' ! k)) (eye (length (Winv' ! k))) 12
                              \<and> is_spd L (W' ! k) None
                              \<and> is_spd L (Winv' ! k) (Some 14))
                  [0..<n_tasks E]
               \<and> list_all (\<lambda>M. almost_equal L M M 7) (omega s))
         then Inl AssertionError
         else Inr (s\<lparr>W := W', Winv := Winv'\<rparr>))"

definition extract_vectors :: "nat \<Rightarrow> solver_state \<Rightarrow> solver_state" where
  \<comment> \<open>the four assignments under \<^verbatim>\<open># Extract y and u\<close>\<close>
  "extract_vectors p s =
     s\<lparr>y := map (\<lambda>M. take p (col M p) @ drop (p + 1) (col M p)) (omega s),
       u := map (\<lambda>M. take p (col M p) @ drop (p + 1) (col M p)) (emp_covs s)\<rparr>"

definition c_vector :: "solver_env \<Rightarrow> nat \<Rightarrow> nat \<Rightarrow> solver_state \<Rightarrow> vec" where
  \<comment> \<open>the array \<^verbatim>\<open>c\<close> of coordinate \<open>m\<close>, from \<^verbatim>\<open>h_12\<close> and \<^verbatim>\<open>y_1\<close>\<close>
  "c_vector E p m s =
     (let h_12 = map (\<lambda>Wk. take m (col Wk m) @ drop (m + 1) (col Wk m)) (Winv s);
          y_1 = map (\<lambda>yk. take m yk @ drop (m + 1) yk) (y s)
      in map (\<lambda>k. - (n_samples E ! k)
                     * (emp_covs s ! k ! p ! p * dot (h_12 ! k) (y_1 ! k) + u s ! k ! m))
           [0..<n_tasks E])"

definition coordinate_step ::
  "libs \<Rightarrow> solver_env \<Rightarrow> nat \<Rightarrow> nat \<Rightarrow> solver_state \<Rightarrow> error + solver_state" where
  \<comment> \<open>the body of the loop \<^verbatim>\<open>for m in xrange(n_var - 1)\<close>\<close>
  "coordinate_step L E p m s =
     (let c = c_vector E p m s;
          c2 = sqrt (dot c c)
      in if c2 \<le> rho E then Inr (s\<lparr>y := map (\<lambda>yk. yk[m := 0]) (y s)\<rparr>)
         else
           let q = map (\<lambda>k. n_samples E ! k * emp_covs s ! k ! p ! p * (Winv s ! k ! m ! m))
                     [0..<n_tasks E]
           in if debug E \<and> \<not> list_all (\<lambda>x. 0 < x) q then Inl AssertionError
              else
                let cc = map2 (\<lambda>a b. a * b) c c;
                    two_ccq = map2 (\<lambda>a b. 2 * a * b) cc q
                in case newton L (\<lambda>a. quad_trust_region a q two_ccq cc ((rho E)\<^sup>2)) 0
                          (\<lambda>a. quad_trust_region_deriv a q two_ccq cc ((rho E)\<^sup>2)) 50 of
                     None \<Rightarrow> Inl RuntimeError
                   | Some alpha \<Rightarrow>
                       let remainder = quad_trust_region alpha q two_ccq cc ((rho E)\<^sup>2);
                           warned = (if \<bar>remainder\<bar> > 1 / 10
                                     then warnings s @ [''Newton-Raphson step did not converge.'']
                                     else warnings s)
                       in if debug E \<and> \<not> 0 \<le> alpha then Inl AssertionError
                          else Inr (s\<lparr>y := map (\<lambda>k. (y s ! k)[m := alpha * c ! k / (1 + alpha * q ! k)])
                                             [0..<n_tasks E],
                                      warnings := warned\<rparr>))"

fun coordinate_descent ::
  "libs \<Rightarrow> solver_env \<Rightarrow> nat \<Rightarrow> nat list \<Rightarrow> solver_state \<Rightarrow> error + solver_state" where
  \<comment> \<open>the loop over the coordinates \<open>m\<close> in the order of the list\<close>
  "coordinate_descent L E p [] s = Inr s"
| "coordinate_descent L E p (m # ms) s =
     (case coordinate_step L E p m s of
        Inl e \<Rightarrow> Inl e
      | Inr s' \<Rightarrow> coordinate_descent L E p ms s')"

definition write_back :: "nat \<Rightarrow> nat \<Rightarrow> vec \<Rightarrow> matrix \<Rightarrow> matrix" where
  \<comment> \<open>the four assignments under \<^verbatim>\<open># Copy back y in omega (column and row)\<close>, for one task;
      one branch for each, in the order of the source\<close>
  "write_back n p yk M =
     mat n n (\<lambda>i j.
       if i < p \<and> j = p then yk ! i
       else if p < i \<and> j = p then yk ! (i - 1)
       else if i = p \<and> j < p then yk ! j
       else if i = p \<and> p < j then yk ! (j - 1)
       else M ! i ! j)"

definition copy_back :: "solver_env \<Rightarrow> nat \<Rightarrow> solver_state \<Rightarrow> solver_state" where
  "copy_back E p s =
     s\<lparr>omega := map (\<lambda>k. write_back (n_var E) p (y s ! k) (omega s ! k)) [0..<n_tasks E]\<rparr>"

definition set_diagonal :: "libs \<Rightarrow> solver_env \<Rightarrow> nat \<Rightarrow> solver_state \<Rightarrow> error + solver_state" where
  \<comment> \<open>the loop that assigns \<^verbatim>\<open>omega[p, p, k]\<close>\<close>
  "set_diagonal L E p s =
     (let omega' = map (\<lambda>k. set_entry (omega s ! k) p p
                          (1 / (emp_covs s ! k ! p ! p)
                           + dot (vec_mat (y s ! k) (Winv s ! k)) (y s ! k)))
                     [0..<n_tasks E]
      in if debug E \<and> \<not> list_all (\<lambda>M. is_spd L M None) omega' then Inl AssertionError
         else Inr (s\<lparr>omega := omega'\<rparr>))"

definition record_cost :: "libs \<Rightarrow> solver_env \<Rightarrow> solver_state \<Rightarrow> solver_state" where
  "record_cost L E s =
     (if return_costs E
      then s\<lparr>costs := costs s @ [group_sparse_covariance_cost L (n_tasks E) (n_samples E) (rho E)
                                    (omega s) (emp_covs s)]\<rparr>
      else s)"

definition update_submatrices ::
  "libs \<Rightarrow> solver_env \<Rightarrow> nat \<Rightarrow> solver_state \<Rightarrow> error + solver_state" where
  \<comment> \<open>the \<^verbatim>\<open>if p == 0: ... else: ...\<close> at the head of the loop body\<close>
  "update_submatrices L E p s =
     (if p = 0 then initial_submatrices L E s else advance_submatrices L E p s)"

definition pivot_update :: "libs \<Rightarrow> solver_env \<Rightarrow> nat \<Rightarrow> solver_state \<Rightarrow> error + solver_state" where
  \<comment> \<open>the body of the loop \<^verbatim>\<open>for p in xrange(n_var)\<close>\<close>
  "pivot_update L E p s =
     (case update_submatrices L E p s of
        Inl e \<Rightarrow> Inl e
      | Inr s1 \<Rightarrow>
          (case coordinate_descent L E p [0..<n_var E - 1] (extract_vectors p s1) of
             Inl e \<Rightarrow> Inl e
           | Inr s2 \<Rightarrow>
               (case set_diagonal L E p (copy_back E p s2) of
                  Inl e \<Rightarrow> Inl e
                | Inr s3 \<Rightarrow> Inr (record_cost L E s3))))"

fun pivot_loop :: "libs \<Rightarrow> solver_env \<Rightarrow> nat list \<Rightarrow> solver_state \<Rightarrow> error + solver_state" where
  \<comment> \<open>pivot updates for the pivots of the list, in its order\<close>
  "pivot_loop L E [] s = Inr s"
| "pivot_loop L E (p # ps) s =
     (case pivot_update L E p s of
        Inl e \<Rightarrow> Inl e
      | Inr s' \<Rightarrow> pivot_loop L E ps s')"

fun sweep_loop :: "libs \<Rightarrow> solver_env \<Rightarrow> nat \<Rightarrow> solver_state \<Rightarrow> error + solver_state" where
  \<comment> \<open>the loop \<^verbatim>\<open>for n in xrange(n_iter)\<close>: so many sweeps over the pivots \<open>0, \<dots>, n_var - 1\<close>\<close>
  "sweep_loop L E 0 s = Inr s"
| "sweep_loop L E (Suc n) s =
     (case pivot_loop L E [0..<n_var E] s of
        Inl e \<Rightarrow> Inl e
      | Inr s' \<Rightarrow> sweep_loop L E n s')"

definition list_max :: "real list \<Rightarrow> real" where
  \<comment> \<open>\<^verbatim>\<open>.max()\<close> of a non-empty array\<close>
  "list_max xs = fold max (tl xs) (hd xs)"

definition construct_emp_covs :: "libs \<Rightarrow> nat \<Rightarrow> bool \<Rightarrow> ndarray2 list \<Rightarrow> matrix list" where
  \<comment> \<open>the loop that fills \<^verbatim>\<open>emp_covs\<close>: the estimator's output, stored, then symmetrized in place\<close>
  "construct_emp_covs L n assume_centered signals =
     map (\<lambda>s. symmetrize (mat n n (empirical_covariance L s assume_centered))) signals"

definition initial_state :: "solver_env \<Rightarrow> matrix list \<Rightarrow> solver_state" where
  \<comment> \<open>\<^verbatim>\<open>omega\<close> with the inverse variances on its diagonals; the preallocated buffers hold
      no meaningful values yet (zeros here), and each is written before it is read\<close>
  "initial_state E emp =
     \<lparr>emp_covs = emp,
      omega = map (\<lambda>C. mat (n_var E) (n_var E) (\<lambda>i j. if i = j then 1 / (C ! i ! i) else 0)) emp,
      W = replicate (n_tasks E) (mat (n_var E - 1) (n_var E - 1) (\<lambda>i j. 0)),
      Winv = replicate (n_tasks E) (mat (n_var E - 1) (n_var E - 1) (\<lambda>i j. 0)),
      y = replicate (n_tasks E) (replicate (n_var E - 1) 0),
      u = replicate (n_tasks E) (replicate (n_var E - 1) 0),
      costs = [],
      warnings = []\<rparr>"

definition solver_env_of :: "ndarray2 list \<Rightarrow> py_value \<Rightarrow> bool \<Rightarrow> bool \<Rightarrow> solver_env" where
  \<comment> \<open>\<^verbatim>\<open>n_tasks\<close>, \<^verbatim>\<open>n_var\<close> and the normalised \<^verbatim>\<open>n_samples\<close> as the source computes them from a
      non-empty list of tasks, with the arguments the loop reads\<close>
  "solver_env_of sigs rho_arg return_costs_arg debug_arg =
     (let counts = map (\<lambda>s. real (shape0 s)) sigs
      in \<lparr>n_tasks = length sigs,
          n_var = shape1 (sigs ! 0),
          n_samples = map (\<lambda>x. x / list_max counts) counts,
          rho = number_of rho_arg,
          return_costs = return_costs_arg,
          debug = debug_arg\<rparr>)"

definition group_sparse_covariance ::
  "libs \<Rightarrow> signals_arg \<Rightarrow> py_value \<Rightarrow> int \<Rightarrow> bool \<Rightarrow> bool \<Rightarrow> bool
     \<Rightarrow> error + (matrix list \<times> matrix list \<times> real list option)" where
  \<comment> \<open>arguments: \<^verbatim>\<open>signals, rho, n_iter, assume_centered, return_costs, debug\<close>; \<^verbatim>\<open>verbose\<close> only
      prints and \<^verbatim>\<open>dtype\<close> only picks the float type, both are left out. The result is
      \<^verbatim>\<open>(emp_covs, omega)\<close>, with the cost trace when \<^verbatim>\<open>return_costs\<close> is set.\<close>
  "group_sparse_covariance L signals rho_arg n_iter assume_centered return_costs_arg debug_arg =
     (if \<not> isinstance_int_float rho_arg \<or> number_of rho_arg < 0
      then Inl (ValueError rho_not_positive)
      else case signals of
        NotIterable \<Rightarrow> Inl (ValueError signals_not_iterable)
      | Iterable sigs \<Rightarrow>
          if length (remdups (map shape1 sigs)) > 1 then Inl (ValueError features_differ)
          else if sigs = [] then Inl IndexError
          else
            let E = solver_env_of sigs rho_arg return_costs_arg debug_arg;
                emp = construct_emp_covs L (n_var E) assume_centered sigs
            in if debug E \<and> \<not> list_all (\<lambda>M. is_spd L M None) emp then Inl AssertionError
               else if n_var E < 2 then Inl (ValueError negative_dimensions)
               else
                 (case sweep_loop L E (nat n_iter) (initial_state E emp) of
                    Inl e \<Rightarrow> Inl e
                  | Inr s \<Rightarrow>
                      Inr (emp_covs s, omega s,
                           if return_costs E then Some (costs s) else None))
      | Generator sigs \<Rightarrow>
          if length (remdups (map shape1 sigs)) > 1 then Inl (ValueError features_differ)
          else Inl TypeError)"

subsection \<open>Shapes\<close>

definition estimates_shape :: "solver_env \<Rightarrow> matrix list \<Rightarrow> bool" where
  \<comment> \<open>a stack of shape \<^verbatim>\<open>(n_var, n_var, n_tasks)\<close>\<close>
  "estimates_shape E ms = (length ms = n_tasks E \<and> list_all (is_square (n_var E)) ms)"

definition vectors_shape :: "solver_env \<Rightarrow> vec list \<Rightarrow> bool" where
  \<comment> \<open>a buffer of shape \<^verbatim>\<open>(n_tasks, n_var - 1)\<close>\<close>
  "vectors_shape E vs = (length vs = n_tasks E \<and> list_all (\<lambda>v. length v = n_var E - 1) vs)"

subsection \<open>An instance of the library, and two tasks\<close>

text \<open>
  For concrete runs: the maximum-likelihood covariance estimate, the inverse of a
  one-by-one matrix (what \<^verbatim>\<open>W\<close> is for two variables), a root-finder that makes one
  Newton step and returns it, and checks that pass.
\<close>

definition sample_covariance :: "ndarray2 \<Rightarrow> bool \<Rightarrow> nat \<Rightarrow> nat \<Rightarrow> real" where
  "sample_covariance s centered i j =
     (let n = real (shape0 s);
          mean = (\<lambda>i. if centered then 0 else sum_list (map (\<lambda>r. r ! i) (samples s)) / n)
      in sum_list (map (\<lambda>r. (r ! i - mean i) * (r ! j - mean j)) (samples s)) / n)"

definition example_libs :: libs where
  "example_libs =
     \<lparr>empirical_covariance = sample_covariance,
      linalg_inv = (\<lambda>M i j. 1 / (M ! 0 ! 0)),
      newton = (\<lambda>f x0 f' maxiter. Some (x0 - f x0 / f' x0)),
      fast_logdet = (\<lambda>M. 0),
      is_spd = (\<lambda>M d. True),
      almost_equal = (\<lambda>A B d. A = B)\<rparr>"

definition task_a :: ndarray2 where
  "task_a = \<lparr>shape0 = 2, shape1 = 2, samples = [[1, 0], [0, 1]]\<rparr>"

definition task_b :: ndarray2 where
  "task_b = \<lparr>shape0 = 2, shape1 = 2, samples = [[1, 1], [0, 1]]\<rparr>"

definition example_env :: solver_env where
  \<comment> \<open>the two tasks with \<^verbatim>\<open>rho = 0\<close>, no cost trace, no debugging\<close>
  "example_env = solver_env_of [task_a, task_b] (PyInt 0) False False"

definition example_start :: solver_state where
  "example_start =
     initial_state example_env (construct_emp_covs example_libs 2 True [task_a, task_b])"

definition example_after_0 :: solver_state where
  \<comment> \<open>the state the update of pivot \<open>0\<close> leaves\<close>
  "example_after_0 =
     \<lparr>emp_covs = [[[1 / 2, 0], [0, 1 / 2]], [[1 / 2, 1 / 2], [1 / 2, 1]]],
      omega = [[[2, 0], [0, 2]], [[19 / 9, - (1 / 3)], [- (1 / 3), 1]]],
      W = [[[2]], [[1]]],
      Winv = [[[1 / 2]], [[1]]],
      y = [[0], [- (1 / 3)]],
      u = [[0], [1 / 2]],
      costs = [],
      warnings = [''Newton-Raphson step did not converge.'']\<rparr>"

definition example_after_1 :: solver_state where
  \<comment> \<open>the state the update of pivot \<open>1\<close> leaves after that\<close>
  "example_after_1 =
     \<lparr>emp_covs = [[[1 / 2, 0], [0, 1 / 2]], [[1 / 2, 1 / 2], [1 / 2, 1]]],
      omega = [[[2, 0], [0, 2]], [[19 / 9, - (19 / 54)], [- (19 / 54), 343 / 324]]],
      W = [[[2]], [[19 / 9]]],
      Winv = [[[1 / 2]], [[9 / 19]]],
      y = [[0], [- (19 / 54)]],
      u = [[0], [1 / 2]],
      costs = [],
      warnings = [''Newton-Raphson step did not converge.'',
                  ''Newton-Raphson step did not converge.'']\<rparr>"

definition sparse_env :: solver_env where
  \<comment> \<open>the two tasks with \<^verbatim>\<open>rho = 1\<close>\<close>
  "sparse_env = solver_env_of [task_a, task_b] (PyInt 1) False False"

definition sparse_start :: solver_state where
  "sparse_start =
     initial_state sparse_env (construct_emp_covs example_libs 2 True [task_a, task_b])"

definition example_submatrices :: solver_state where
  \<comment> \<open>the state at pivot \<open>0\<close> of the first sweep, once \<^verbatim>\<open>W\<close> and \<^verbatim>\<open>Winv\<close> are set up\<close>
  "example_submatrices =
     \<lparr>emp_covs = [[[1 / 2, 0], [0, 1 / 2]], [[1 / 2, 1 / 2], [1 / 2, 1]]],
      omega = [[[2, 0], [0, 2]], [[2, 0], [0, 1]]],
      W = [[[2]], [[1]]],
      Winv = [[[1 / 2]], [[1]]],
      y = [[0], [0]],
      u = [[0], [0]],
      costs = [],
      warnings = []\<rparr>"

definition sparse_after_0 :: solver_state where
  \<comment> \<open>the state the update of pivot \<open>0\<close> leaves with \<^verbatim>\<open>rho = 1\<close>\<close>
  "sparse_after_0 =
     \<lparr>emp_covs = [[[1 / 2, 0], [0, 1 / 2]], [[1 / 2, 1 / 2], [1 / 2, 1]]],
      omega = [[[2, 0], [0, 2]], [[2, 0], [0, 1]]],
      W = [[[2]], [[1]]],
      Winv = [[[1 / 2]], [[1]]],
      y = [[0], [0]],
      u = [[0], [1 / 2]],
      costs = [],
      warnings = []\<rparr>"

subsection \<open>The root-finder and the check of the library, for concrete runs\<close>

text \<open>
  \<^verbatim>\<open>scipy.optimize.newton\<close>, called with a derivative, is the Newton-Raphson iteration: from
  \<^verbatim>\<open>p0 = x0\<close> it makes at most \<^verbatim>\<open>maxiter\<close> steps \<^verbatim>\<open>p = p0 - func(p0) / fprime(p0)\<close>; it
  returns \<^verbatim>\<open>p\<close> as soon as \<^verbatim>\<open>abs(p - p0) < tol\<close>, with \<^verbatim>\<open>tol = 1.48e-8\<close> when the caller
  passes none; when the steps are used up it raises \<^verbatim>\<open>RuntimeError\<close>. Where the derivative
  is zero the releases of the time of the source warn and return \<^verbatim>\<open>p0\<close>, which is what
  is written here (in the run evaluated below the derivative is never zero).
  \<^verbatim>\<open>is_spd\<close> tells whether a matrix is symmetric with positive eigenvalues, which for two
  rows and columns is: equal off-diagonal entries, a positive first entry and a
  positive determinant. Neither library is among the sources; these two are instances
  of the parameters, used to evaluate the solver on given tasks, and no statement
  about an arbitrary library depends on them.
\<close>

fun newton_raphson ::
  "(real \<Rightarrow> real) \<Rightarrow> (real \<Rightarrow> real) \<Rightarrow> real \<Rightarrow> nat \<Rightarrow> real \<Rightarrow> real option" where
  \<comment> \<open>arguments: \<^verbatim>\<open>func\<close>, \<^verbatim>\<open>fprime\<close>, \<^verbatim>\<open>tol\<close>, the iterations left, \<^verbatim>\<open>p0\<close>\<close>
  "newton_raphson f f' tol 0 p0 = None"
| "newton_raphson f f' tol (Suc n) p0 =
     (if f' p0 = 0 then Some p0
      else let p = p0 - f p0 / f' p0
           in if \<bar>p - p0\<bar> < tol then Some p else newton_raphson f f' tol n p)"

definition scipy_newton :: "(real \<Rightarrow> real) \<Rightarrow> real \<Rightarrow> (real \<Rightarrow> real) \<Rightarrow> nat \<Rightarrow> real option" where
  "scipy_newton f x0 f' maxiter = newton_raphson f f' (148 / 10 ^ 10) maxiter x0"

definition spd_2x2 :: "matrix \<Rightarrow> bool" where
  "spd_2x2 M =
     (M ! 0 ! 1 = M ! 1 ! 0 \<and> 0 < M ! 0 ! 0 \<and> 0 < M ! 0 ! 0 * M ! 1 ! 1 - M ! 0 ! 1 * M ! 1 ! 0)"

definition scipy_libs :: libs where
  \<comment> \<open>as \<open>example_libs\<close>, with the root-finder and the check above\<close>
  "scipy_libs =
     \<lparr>empirical_covariance = sample_covariance,
      linalg_inv = (\<lambda>M i j. 1 / (M ! 0 ! 0)),
      newton = scipy_newton,
      fast_logdet = (\<lambda>M. 0),
      is_spd = (\<lambda>M d. spd_2x2 M),
      almost_equal = (\<lambda>A B d. A = B)\<rparr>"

definition scipy_start :: solver_state where
  \<comment> \<open>the state before the first sweep on the two tasks\<close>
  "scipy_start =
     initial_state example_env (construct_emp_covs scipy_libs 2 True [task_a, task_b])"

definition task_flat :: ndarray2 where
  \<comment> \<open>two samples of two variables, the second variable constantly zero\<close>
  "task_flat = \<lparr>shape0 = 2, shape1 = 2, samples = [[1, 0], [1, 0]]\<rparr>"

definition task_single :: ndarray2 where
  \<comment> \<open>two samples of one variable\<close>
  "task_single = \<lparr>shape0 = 2, shape1 = 1, samples = [[1], [2]]\<rparr>"

definition sparse_after_1 :: solver_state where
  \<comment> \<open>the state the update of pivot \<open>1\<close> leaves after that, with \<^verbatim>\<open>rho = 1\<close>\<close>
  "sparse_after_1 =
     \<lparr>emp_covs = [[[1 / 2, 0], [0, 1 / 2]], [[1 / 2, 1 / 2], [1 / 2, 1]]],
      omega = [[[2, 0], [0, 2]], [[2, 0], [0, 1]]],
      W = [[[2]], [[2]]],
      Winv = [[[1 / 2]], [[1 / 2]]],
      y = [[0], [0]],
      u = [[0], [1 / 2]],
      costs = [],
      warnings = []\<rparr>"

section \<open>Finite sums: the two rank-one corrections\<close>

lemma sm_row_right:
  fixes a b :: "nat \<Rightarrow> nat \<Rightarrow> real" and h :: "nat \<Rightarrow> real"
  assumes AB: "\<And>i j. i < N \<Longrightarrow> j < N \<Longrightarrow> (\<Sum>k<N. a i k * b k j) = (if i = j then 1 else 0)"
    and n: "n < N"
    and d: "1 + (\<Sum>k<N. (h k - a n k) * b k n) \<noteq> 0"
    and i: "i < N" and j: "j < N"
  shows "(\<Sum>k<N. (if i = n then h k else a i k)
            * (b k j - b k n / (1 + (\<Sum>l<N. (h l - a n l) * b l n)) * (\<Sum>l<N. (h l - a n l) * b l j)))
         = (if i = j then 1 else 0)"
proof -
  define s where "s = (\<Sum>l<N. (h l - a n l) * b l n)"
  define w where "w = (\<Sum>l<N. (h l - a n l) * b l j)"
  define a' where "a' = (\<lambda>k. if i = n then h k else a i k)"
  have d': "1 + s \<noteq> 0" using d by (simp add: s_def)
  have split: "(\<Sum>k<N. a' k * (b k j - b k n / (1 + s) * w))
      = (\<Sum>k<N. a' k * b k j) - (\<Sum>k<N. a' k * b k n) * w / (1 + s)"
    by (simp add: algebra_simps sum_subtractf sum_distrib_left sum_distrib_right sum_divide_distrib)
  show ?thesis
  proof (cases "i = n")
    case False
    then have "(\<Sum>k<N. a' k * b k j) = (if i = j then 1 else 0)" "(\<Sum>k<N. a' k * b k n) = 0"
      using AB[OF i j] AB[OF i n] by (simp_all add: a'_def)
    with split show ?thesis by (simp add: a'_def s_def w_def)
  next
    case True
    have e: "\<And>k. a' k = a n k + (h k - a n k)" by (simp add: a'_def True)
    have 1: "(\<Sum>k<N. a' k * b k j) = (if n = j then 1 else 0) + w"
      unfolding e by (simp add: algebra_simps sum.distrib sum_subtractf w_def AB[OF n j])
    have 2: "(\<Sum>k<N. a' k * b k n) = 1 + s"
      unfolding e using AB[OF n n] by (simp add: algebra_simps sum.distrib sum_subtractf s_def)
    from split 1 2 d' have "(\<Sum>k<N. a' k * (b k j - b k n / (1 + s) * w)) = (if n = j then 1 else 0)"
      by simp
    then show ?thesis by (simp add: a'_def s_def w_def True)
  qed
qed



lemma sm_row_left:
  fixes a b :: "nat \<Rightarrow> nat \<Rightarrow> real" and h :: "nat \<Rightarrow> real"
  assumes BA: "\<And>i j. i < N \<Longrightarrow> j < N \<Longrightarrow> (\<Sum>k<N. b i k * a k j) = (if i = j then 1 else 0)"
    and n: "n < N"
    and d: "1 + (\<Sum>k<N. (h k - a n k) * b k n) \<noteq> 0"
    and i: "i < N" and j: "j < N"
  shows "(\<Sum>k<N. (b i k - b i n / (1 + (\<Sum>l<N. (h l - a n l) * b l n)) * (\<Sum>l<N. (h l - a n l) * b l k))
              * (if k = n then h j else a k j))
         = (if i = j then 1 else 0)"
proof -
  define s where "s = (\<Sum>l<N. (h l - a n l) * b l n)"
  define V where "V = (\<lambda>l. h l - a n l)"
  define w where "w = (\<lambda>k. \<Sum>l<N. V l * b l k)"
  define b' where "b' = (\<lambda>k. b i k - b i n / (1 + s) * w k)"
  have d': "1 + s \<noteq> 0" using d by (simp add: s_def)
  have wn: "w n = s" by (simp add: w_def s_def V_def)
  have e: "\<And>k. (if k = n then h j else a k j) = a k j + (if k = n then V j else 0)"
    by (simp add: V_def)
  have delta: "(\<Sum>k<N. b' k * (if k = n then V j else 0)) = b' n * V j"
  proof -
    have "(\<Sum>k<N. b' k * (if k = n then V j else 0)) = (\<Sum>k<N. if k = n then b' n * V j else 0)"
      by (rule sum.cong) auto
    also have "\<dots> = b' n * V j" using n by simp
    finally show ?thesis .
  qed
  have wa: "(\<Sum>k<N. w k * a k j) = V j"
  proof -
    have "(\<Sum>k<N. w k * a k j) = (\<Sum>k<N. \<Sum>l<N. V l * (b l k * a k j))"
      by (simp add: w_def sum_distrib_right mult.assoc)
    also have "\<dots> = (\<Sum>l<N. \<Sum>k<N. V l * (b l k * a k j))" by (rule sum.swap)
    also have "\<dots> = (\<Sum>l<N. V l * (if l = j then 1 else 0))"
      by (rule sum.cong) (simp_all add: sum_distrib_left[symmetric] BA j)
    also have "\<dots> = (\<Sum>l<N. if l = j then V j else 0)"
      by (rule sum.cong) auto
    also have "\<dots> = V j" using j by simp
    finally show ?thesis .
  qed
  have ba: "(\<Sum>k<N. b' k * a k j) = (if i = j then 1 else 0) - b i n / (1 + s) * V j"
  proof -
    have "(\<Sum>k<N. b' k * a k j) = (\<Sum>k<N. b i k * a k j) - b i n / (1 + s) * (\<Sum>k<N. w k * a k j)"
      by (simp add: b'_def algebra_simps sum_subtractf sum_distrib_left)
    then show ?thesis by (simp add: BA i j wa)
  qed
  have "(\<Sum>k<N. b' k * (if k = n then h j else a k j)) = (if i = j then 1 else 0) - b i n / (1 + s) * V j + b' n * V j"
    unfolding e by (simp add: distrib_left sum.distrib ba delta)
  also have "\<dots> = (if i = j then 1 else 0)"
  proof -
    define t where "t = b i n / (1 + s)"
    have bin: "b i n = t * (1 + s)" using d' by (simp add: t_def)
    have "b' n = b i n - t * s" by (simp add: b'_def wn t_def)
    also have "\<dots> = t" by (simp add: bin algebra_simps)
    finally have "b' n = t" .
    then show ?thesis by (simp add: t_def)
  qed
  finally show ?thesis by (simp add: b'_def w_def V_def s_def)
qed

lemma sm_col_left:
  fixes a b :: "nat \<Rightarrow> nat \<Rightarrow> real" and v :: "nat \<Rightarrow> real"
  assumes BA: "\<And>i j. i < N \<Longrightarrow> j < N \<Longrightarrow> (\<Sum>k<N. b i k * a k j) = (if i = j then 1 else 0)"
    and n: "n < N"
    and d: "1 + (\<Sum>k<N. b n k * (v k - a k n)) \<noteq> 0"
    and i: "i < N" and j: "j < N"
  shows "(\<Sum>k<N. (b i k - (\<Sum>l<N. b i l * (v l - a l n)) * (b n k / (1 + (\<Sum>l<N. b n l * (v l - a l n)))))
              * (if j = n then v k else a k j))
         = (if i = j then 1 else 0)"
proof -
  have c: "(\<Sum>k<N. (v k - a k n) * b n k) = (\<Sum>k<N. b n k * (v k - a k n))"
    by (simp add: mult.commute)
  have ci: "(\<Sum>l<N. (v l - a l n) * b i l) = (\<Sum>l<N. b i l * (v l - a l n))"
    by (simp add: mult.commute)
  have "(\<Sum>k<N. (if j = n then v k else a k j)
            * (b i k - b n k / (1 + (\<Sum>l<N. (v l - a l n) * b n l)) * (\<Sum>l<N. (v l - a l n) * b i l)))
         = (if j = i then 1 else 0)"
  proof (rule sm_row_right[where a = "\<lambda>i k. a k i" and b = "\<lambda>k j. b j k" and h = v and N = N, OF _ n _ j i])
    fix i' j' assume "i' < N" "j' < N"
    then show "(\<Sum>k<N. a k i' * b j' k) = (if i' = j' then 1 else 0)"
      using BA[of j' i'] by (simp add: mult.commute eq_commute)
  next
    show "1 + (\<Sum>k<N. (v k - a k n) * b n k) \<noteq> 0" using d by (simp add: c)
  qed
  then show ?thesis
    by (simp add: c ci mult.commute eq_commute)
qed

lemma sm_col_right:
  fixes a b :: "nat \<Rightarrow> nat \<Rightarrow> real" and v :: "nat \<Rightarrow> real"
  assumes AB: "\<And>i j. i < N \<Longrightarrow> j < N \<Longrightarrow> (\<Sum>k<N. a i k * b k j) = (if i = j then 1 else 0)"
    and n: "n < N"
    and d: "1 + (\<Sum>k<N. b n k * (v k - a k n)) \<noteq> 0"
    and i: "i < N" and j: "j < N"
  shows "(\<Sum>k<N. (if k = n then v i else a i k)
              * (b k j - (\<Sum>l<N. b k l * (v l - a l n)) * (b n j / (1 + (\<Sum>l<N. b n l * (v l - a l n))))))
         = (if i = j then 1 else 0)"
proof -
  have c: "(\<Sum>k<N. (v k - a k n) * b n k) = (\<Sum>k<N. b n k * (v k - a k n))"
    by (simp add: mult.commute)
  have ck: "\<And>k. (\<Sum>l<N. (v l - a l n) * b k l) = (\<Sum>l<N. b k l * (v l - a l n))"
    by (simp add: mult.commute)
  have "(\<Sum>k<N. (b k j - b n j / (1 + (\<Sum>l<N. (v l - a l n) * b n l)) * (\<Sum>l<N. (v l - a l n) * b k l))
              * (if k = n then v i else a i k))
         = (if j = i then 1 else 0)"
  proof (rule sm_row_left[where a = "\<lambda>i k. a k i" and b = "\<lambda>k j. b j k" and h = v and N = N, OF _ n _ j i])
    fix i' j' assume "i' < N" "j' < N"
    then show "(\<Sum>k<N. b k i' * a j' k) = (if i' = j' then 1 else 0)"
      using AB[of j' i'] by (simp add: mult.commute eq_commute)
  next
    show "1 + (\<Sum>k<N. (v k - a k n) * b n k) \<noteq> 0" using d by (simp add: c)
  qed
  then show ?thesis
    by (simp add: c ck mult.commute eq_commute)
qed

lemma sum_delta_left: "i < (N::nat) \<Longrightarrow> (\<Sum>l<N. (if i = l then 1 else 0) * (f l :: real)) = f i"
proof -
  assume i: "i < N"
  have "(\<Sum>l<N. (if i = l then 1 else 0) * f l) = (\<Sum>l<N. if l = i then f i else 0)"
    by (rule sum.cong) auto
  also have "\<dots> = f i" using i by simp
  finally show ?thesis .
qed

lemma sm_col_denominator:
  fixes a b c :: "nat \<Rightarrow> nat \<Rightarrow> real" and v :: "nat \<Rightarrow> real"
  assumes AB: "\<And>i j. i < N \<Longrightarrow> j < N \<Longrightarrow> (\<Sum>k<N. a i k * b k j) = (if i = j then 1 else 0)"
    and CA: "\<And>i j. i < N \<Longrightarrow> j < N \<Longrightarrow>
               (\<Sum>k<N. c i k * (if j = n then v k else a k j)) = (if i = j then 1 else 0)"
    and n: "n < N"
  shows "1 + (\<Sum>k<N. b n k * (v k - a k n)) \<noteq> 0"
proof
  assume zero: "1 + (\<Sum>k<N. b n k * (v k - a k n)) = 0"
  define U where "U = (\<lambda>k. v k - a k n)"
  define z where "z = (\<lambda>i. \<Sum>k<N. b i k * U k)"
  have zn: "z n = - 1" using zero by (simp add: z_def U_def)
  have Az: "(\<Sum>k<N. (if k = n then v i else a i k) * z k) = 0" if i: "i < N" for i
  proof -
    have e: "\<And>k. (if k = n then v i else a i k) = a i k + (if k = n then U i else 0)"
      by (simp add: U_def)
    have "(\<Sum>k<N. a i k * z k) = (\<Sum>k<N. \<Sum>l<N. (a i k * b k l) * U l)"
      by (simp add: z_def sum_distrib_left mult.assoc)
    also have "\<dots> = (\<Sum>l<N. \<Sum>k<N. (a i k * b k l) * U l)" by (rule sum.swap)
    also have "\<dots> = (\<Sum>l<N. (if i = l then 1 else 0) * U l)"
      by (rule sum.cong) (simp_all add: sum_distrib_right[symmetric] AB i)
    also have "\<dots> = U i" by (rule sum_delta_left[OF i])
    finally have 1: "(\<Sum>k<N. a i k * z k) = U i" .
    have "(\<Sum>k<N. (if k = n then U i else 0) * z k) = (\<Sum>k<N. if k = n then U i * z n else 0)"
      by (rule sum.cong) auto
    also have "\<dots> = U i * z n" using n by simp
    finally have 2: "(\<Sum>k<N. (if k = n then U i else 0) * z k) = U i * z n" .
    show ?thesis unfolding e by (simp add: distrib_right sum.distrib 1 2 zn)
  qed
  have "z n = (\<Sum>i<N. (if n = i then 1 else 0) * z i)"
    by (simp add: sum_delta_left[OF n])
  also have "\<dots> = (\<Sum>i<N. (\<Sum>k<N. c n k * (if i = n then v k else a k i)) * z i)"
    by (rule sum.cong) (simp_all add: CA n)
  also have "\<dots> = (\<Sum>i<N. \<Sum>k<N. c n k * ((if i = n then v k else a k i) * z i))"
    by (simp add: sum_distrib_right mult.assoc)
  also have "\<dots> = (\<Sum>k<N. \<Sum>i<N. c n k * ((if i = n then v k else a k i) * z i))"
    by (rule sum.swap)
  also have "\<dots> = (\<Sum>k<N. c n k * (\<Sum>i<N. (if i = n then v k else a k i) * z i))"
    by (simp add: sum_distrib_left)
  also have "\<dots> = 0"
    by (simp add: Az)
  finally show False using zn by simp
qed

section \<open>Arrays as tabulated functions\<close>

lemma length_mat [simp]: "length (mat r c f) = r"
  by (simp add: mat_def)

lemma nth_mat [simp]: "i < r \<Longrightarrow> mat r c f ! i = map (f i) [0..<c]"
  by (simp add: mat_def)

lemma mat_entry: "i < r \<Longrightarrow> j < c \<Longrightarrow> mat r c f ! i ! j = f i j"
  by simp

lemma mat_cong: "(\<And>i j. i < r \<Longrightarrow> j < c \<Longrightarrow> f i j = g i j) \<Longrightarrow> mat r c f = mat r c g"
  by (simp add: mat_def)

lemma is_square_mat [simp]: "is_square n (mat n n f)"
  by (simp add: is_square_def mat_def list_all_iff)

lemma is_square_length: "is_square n M \<Longrightarrow> length M = n"
  by (simp add: is_square_def)

lemma is_square_row: "is_square n M \<Longrightarrow> i < n \<Longrightarrow> length (M ! i) = n"
  by (simp add: is_square_def list_all_length)

lemma is_square_eq_mat: "is_square n M \<Longrightarrow> M = mat n n (\<lambda>i j. M ! i ! j)"
proof (rule nth_equalityI)
  assume sq: "is_square n M"
  show "length M = length (mat n n (\<lambda>i j. M ! i ! j))" using sq by (simp add: is_square_length)
  fix i assume "i < length M"
  then have i: "i < n" using sq by (simp add: is_square_length)
  show "M ! i = mat n n (\<lambda>i j. M ! i ! j) ! i"
    by (rule nth_equalityI) (simp_all add: i is_square_row[OF sq i])
qed

lemma is_square_ncols: "is_square n M \<Longrightarrow> ncols M = n"
  by (cases M) (auto simp: ncols_def is_square_def)

lemma dot_sum: "length xs = length ys \<Longrightarrow> dot xs ys = (\<Sum>k<length xs. xs ! k * ys ! k)"
proof -
  assume l: "length xs = length ys"
  have "dot xs ys = (\<Sum>k = 0..<length xs. map2 (\<lambda>a b. a * b) xs ys ! k)"
    unfolding dot_def by (subst sum_list_sum_nth) (simp add: l)
  also have "\<dots> = (\<Sum>k = 0..<length xs. xs ! k * ys ! k)"
    by (rule sum.cong) (simp_all add: l)
  finally show ?thesis by (simp add: atLeast0LessThan)
qed

lemma length_col [simp]: "length (col M j) = length M"
  by (simp add: col_def)

lemma col_nth [simp]: "i < length M \<Longrightarrow> col M j ! i = M ! i ! j"
  by (simp add: col_def)

lemma vec_mat_square:
  assumes "is_square n M" "length xs = n"
  shows "vec_mat xs M = map (\<lambda>j. \<Sum>k<n. xs ! k * M ! k ! j) [0..<n]"
proof -
  have "\<And>j. dot xs (col M j) = (\<Sum>k<n. xs ! k * M ! k ! j)"
    using assms by (simp add: dot_sum is_square_length)
  then show ?thesis
    by (simp add: vec_mat_def is_square_ncols[OF assms(1)])
qed

lemma mat_vec_square:
  assumes "is_square n M" "length xs = n"
  shows "mat_vec M xs = map (\<lambda>i. \<Sum>k<n. M ! i ! k * xs ! k) [0..<n]"
proof (rule nth_equalityI)
  show "length (mat_vec M xs) = length (map (\<lambda>i. \<Sum>k<n. M ! i ! k * xs ! k) [0..<n])"
    using assms by (simp add: mat_vec_def is_square_length)
  fix i assume "i < length (mat_vec M xs)"
  then have i: "i < n" using assms by (simp add: mat_vec_def is_square_length)
  have "dot (M ! i) xs = (\<Sum>k<n. M ! i ! k * xs ! k)"
    using assms i by (simp add: dot_sum is_square_row)
  then show "mat_vec M xs ! i = map (\<lambda>i. \<Sum>k<n. M ! i ! k * xs ! k) [0..<n] ! i"
    using assms i by (simp add: mat_vec_def is_square_length)
qed

lemma mat_mul_square:
  assumes "is_square n A" "is_square n B"
  shows "mat_mul A B = mat n n (\<lambda>i j. \<Sum>k<n. A ! i ! k * B ! k ! j)"
proof (rule nth_equalityI)
  show "length (mat_mul A B) = length (mat n n (\<lambda>i j. \<Sum>k<n. A ! i ! k * B ! k ! j))"
    using assms by (simp add: mat_mul_def is_square_length)
  fix i assume "i < length (mat_mul A B)"
  then have i: "i < n" using assms by (simp add: mat_mul_def is_square_length)
  have "vec_mat (A ! i) B = map (\<lambda>j. \<Sum>k<n. A ! i ! k * B ! k ! j) [0..<n]"
    by (rule vec_mat_square[OF assms(2)]) (rule is_square_row[OF assms(1) i])
  then show "mat_mul A B ! i = mat n n (\<lambda>i j. \<Sum>k<n. A ! i ! k * B ! k ! j) ! i"
    using assms i by (simp add: mat_mul_def is_square_length)
qed

lemma mat_eq_iff: "mat r c f = mat r c g \<longleftrightarrow> (\<forall>i<r. \<forall>j<c. f i j = g i j)"
proof
  assume e: "mat r c f = mat r c g"
  show "\<forall>i<r. \<forall>j<c. f i j = g i j"
  proof (intro allI impI)
    fix i j assume "i < r" "j < c"
    then have "mat r c f ! i ! j = f i j" "mat r c g ! i ! j = g i j"
      by (simp_all only: mat_entry)
    then show "f i j = g i j" by (simp only: e)
  qed
next
  assume "\<forall>i<r. \<forall>j<c. f i j = g i j"
  then show "mat r c f = mat r c g" by (intro mat_cong) blast
qed

lemma is_inverse_iff:
  "is_inverse A B \<longleftrightarrow>
     is_square (length A) A \<and> is_square (length A) B
     \<and> (\<forall>i<length A. \<forall>j<length A. (\<Sum>k<length A. A ! i ! k * B ! k ! j) = (if i = j then 1 else 0))
     \<and> (\<forall>i<length A. \<forall>j<length A. (\<Sum>k<length A. B ! i ! k * A ! k ! j) = (if i = j then 1 else 0))"
proof (cases "is_square (length A) A \<and> is_square (length A) B")
  case True
  then have sq: "is_square (length A) A" "is_square (length A) B" by simp_all
  show ?thesis
    unfolding is_inverse_def mat_mul_square[OF sq] mat_mul_square[OF sq(2) sq(1)] eye_def mat_eq_iff
    using sq by simp
next
  case False
  then show ?thesis by (auto simp: is_inverse_def)
qed

lemma length_delete_at: "a < length xs \<Longrightarrow> length (delete_at a xs) = length xs - 1"
  by (simp add: delete_at_def)

lemma delete_at_nth:
  "a < length xs \<Longrightarrow> k < length xs - 1 \<Longrightarrow> delete_at a xs ! k = xs ! (if k < a then k else Suc k)"
  by (simp add: delete_at_def nth_append)

lemma update_vectors_eq:
  "update_vectors full n = (delete_at (Suc n) (full ! n), delete_at (Suc n) (col full n))"
  by (simp add: update_vectors_def delete_at_def)

lemma true_sub_eq: "true_sub full n = map (delete_at n) (delete_at n full)"
  by (simp add: true_sub_def delete_at_def)

lemma true_sub_mat:
  assumes sq: "is_square (Suc N) full" and p: "p \<le> N"
  shows "true_sub full p = mat N N (\<lambda>i j. full ! (if i < p then i else Suc i) ! (if j < p then j else Suc j))"
proof (rule nth_equalityI)
  have lf: "length full = Suc N" using sq by (rule is_square_length)
  show l: "length (true_sub full p) = length (mat N N (\<lambda>i j. full ! (if i < p then i else Suc i) ! (if j < p then j else Suc j)))"
    using p by (simp add: true_sub_eq length_delete_at lf)
  fix i assume "i < length (true_sub full p)"
  then have i: "i < N" using l by simp
  have row: "delete_at p full ! i = full ! (if i < p then i else Suc i)"
    using p i by (simp add: delete_at_nth lf)
  have lr: "length (full ! (if i < p then i else Suc i)) = Suc N"
    using i by (intro is_square_row[OF sq]) simp
  have "true_sub full p ! i = delete_at p (full ! (if i < p then i else Suc i))"
    using i p by (simp add: true_sub_eq length_delete_at lf row)
  also have "\<dots> = map (\<lambda>j. full ! (if i < p then i else Suc i) ! (if j < p then j else Suc j)) [0..<N]"
    by (rule nth_equalityI) (use p lr in \<open>simp_all add: length_delete_at delete_at_nth\<close>)
  finally show "true_sub full p ! i = mat N N (\<lambda>i j. full ! (if i < p then i else Suc i) ! (if j < p then j else Suc j)) ! i"
    using i by simp
qed

lemma mat_sub_square:
  assumes "is_square n A" "is_square n B"
  shows "mat_sub A B = mat n n (\<lambda>i j. A ! i ! j - B ! i ! j)"
proof (rule nth_equalityI)
  show "length (mat_sub A B) = length (mat n n (\<lambda>i j. A ! i ! j - B ! i ! j))"
    using assms by (simp add: mat_sub_def is_square_length)
  fix i assume "i < length (mat_sub A B)"
  then have i: "i < n" using assms by (simp add: mat_sub_def is_square_length)
  have "map2 (\<lambda>a b. a - b) (A ! i) (B ! i) = map (\<lambda>j. A ! i ! j - B ! i ! j) [0..<n]"
    by (rule nth_equalityI) (use assms i in \<open>simp_all add: is_square_row\<close>)
  then show "mat_sub A B ! i = mat n n (\<lambda>i j. A ! i ! j - B ! i ! j) ! i"
    using assms i by (simp add: mat_sub_def is_square_length)
qed

lemma outer_mat: "outer xs ys = mat (length xs) (length ys) (\<lambda>i j. xs ! i * ys ! j)"
  by (rule nth_equalityI) (simp_all add: outer_def, rule nth_equalityI, simp_all)

lemma square_update_row:
  assumes "is_square N M" "n < N" "length h = N"
  shows "M[n := h] = mat N N (\<lambda>i j. if i = n then h ! j else M ! i ! j)"
proof (rule nth_equalityI)
  show "length (M[n := h]) = length (mat N N (\<lambda>i j. if i = n then h ! j else M ! i ! j))"
    using assms by (simp add: is_square_length)
  fix i assume "i < length (M[n := h])"
  then have i: "i < N" using assms by (simp add: is_square_length)
  show "M[n := h] ! i = mat N N (\<lambda>i j. if i = n then h ! j else M ! i ! j) ! i"
  proof (cases "i = n")
    case True
    then show ?thesis
      using assms i by (simp add: is_square_length) (rule nth_equalityI, simp_all)
  next
    case False
    have "M ! i = map (\<lambda>j. M ! i ! j) [0..<N]"
      by (rule nth_equalityI) (use assms i in \<open>simp_all add: is_square_row\<close>)
    then show ?thesis
      using assms i False by (simp add: is_square_length)
  qed
qed

lemma square_set_col:
  assumes "is_square N M" "n < N" "length v = N"
  shows "set_col M n v = mat N N (\<lambda>i j. if j = n then v ! i else M ! i ! j)"
proof (rule nth_equalityI)
  show "length (set_col M n v) = length (mat N N (\<lambda>i j. if j = n then v ! i else M ! i ! j))"
    using assms by (simp add: is_square_length set_col_def)
  fix i assume "i < length (set_col M n v)"
  then have i: "i < N" using assms by (simp add: is_square_length set_col_def)
  show "set_col M n v ! i = mat N N (\<lambda>i j. if j = n then v ! i else M ! i ! j) ! i"
    by (rule nth_equalityI)
       (use assms i in \<open>simp_all add: set_col_def is_square_length is_square_row nth_list_update\<close>)
qed

lemma length_vec_sub [simp]: "length (vec_sub xs ys) = min (length xs) (length ys)"
  by (simp add: vec_sub_def)

lemma vec_sub_nth [simp]: "k < length xs \<Longrightarrow> k < length ys \<Longrightarrow> vec_sub xs ys ! k = xs ! k - ys ! k"
  by (simp add: vec_sub_def)

lemma row_denominator_eq:
  assumes sq: "is_square N sub" "is_square N sub_inv" and n: "n < N"
    and h: "fst (update_vectors full n) = h" "length h = N"
  shows "row_denominator full sub sub_inv (Suc n) = 1 + (\<Sum>k<N. (h ! k - sub ! n ! k) * sub_inv ! k ! n)"
proof -
  have ln: "length (sub ! n) = N" using sq(1) n by (rule is_square_row)
  have "dot (vec_sub h (sub ! n)) (col sub_inv n) = (\<Sum>k<N. (h ! k - sub ! n ! k) * sub_inv ! k ! n)"
    using h ln sq(2) by (simp add: dot_sum is_square_length)
  then show ?thesis by (simp add: row_denominator_def Let_def h)
qed

lemma change_row_eq:
  assumes sq: "is_square N sub" "is_square N sub_inv" and n: "n < N"
    and h: "fst (update_vectors full n) = h" "length h = N"
  shows "change_row full sub sub_inv (Suc n) =
     (mat N N (\<lambda>i j. if i = n then h ! j else sub ! i ! j),
      mat N N (\<lambda>i j. sub_inv ! i ! j
          - sub_inv ! i ! n / (1 + (\<Sum>k<N. (h ! k - sub ! n ! k) * sub_inv ! k ! n))
            * (\<Sum>l<N. (h ! l - sub ! n ! l) * sub_inv ! l ! j)))"
proof -
  define V where "V = vec_sub h (sub ! n)"
  define d where "d = 1 + dot V (col sub_inv n)"
  define coln where "coln = map (\<lambda>x. x / d) (col sub_inv n)"
  have ln: "length (sub ! n) = N" using sq(1) n by (rule is_square_row)
  have lV: "length V = N" by (simp add: V_def h ln)
  have Vk: "\<And>k. k < N \<Longrightarrow> V ! k = h ! k - sub ! n ! k" by (simp add: V_def h ln)
  have dd: "d = 1 + (\<Sum>k<N. (h ! k - sub ! n ! k) * sub_inv ! k ! n)"
    using sq(2) by (simp add: d_def dot_sum lV is_square_length Vk)
  have vm: "vec_mat V sub_inv = map (\<lambda>j. \<Sum>l<N. (h ! l - sub ! n ! l) * sub_inv ! l ! j) [0..<N]"
    by (simp add: vec_mat_square[OF sq(2) lV] Vk)
  have lc: "length coln = N" using sq(2) by (simp add: coln_def is_square_length)
  have ck: "\<And>i. i < N \<Longrightarrow> coln ! i = sub_inv ! i ! n / d"
    using sq(2) by (simp add: coln_def is_square_length)
  have o: "outer coln (vec_mat V sub_inv)
      = mat N N (\<lambda>i j. sub_inv ! i ! n / d * (\<Sum>l<N. (h ! l - sub ! n ! l) * sub_inv ! l ! j))"
    unfolding outer_mat by (simp add: lc vm) (rule mat_cong, simp add: ck)
  have "mat_sub sub_inv (outer coln (vec_mat V sub_inv))
      = mat N N (\<lambda>i j. sub_inv ! i ! j - sub_inv ! i ! n / d * (\<Sum>l<N. (h ! l - sub ! n ! l) * sub_inv ! l ! j))"
    unfolding o by (subst mat_sub_square[OF sq(2) is_square_mat]) (rule mat_cong, simp)
  moreover have "sub[n := h] = mat N N (\<lambda>i j. if i = n then h ! j else sub ! i ! j)"
    by (rule square_update_row[OF sq(1) n h(2)])
  ultimately show ?thesis
    by (simp add: change_row_def Let_def h V_def[symmetric] d_def[symmetric] coln_def[symmetric] dd[symmetric])
qed

lemma change_column_eq:
  assumes sq: "is_square N sub" "is_square N sub_inv" and n: "n < N"
    and v: "snd (update_vectors full n) = v" "length v = N"
  shows "change_column full sub sub_inv (Suc n) =
     (mat N N (\<lambda>i j. if j = n then v ! i else sub ! i ! j),
      mat N N (\<lambda>i j. sub_inv ! i ! j
          - (\<Sum>l<N. sub_inv ! i ! l * (v ! l - sub ! l ! n))
            * (sub_inv ! n ! j / (1 + (\<Sum>k<N. sub_inv ! n ! k * (v ! k - sub ! k ! n))))))"
proof -
  define U where "U = vec_sub v (col sub n)"
  define d where "d = 1 + dot (sub_inv ! n) U"
  define rown where "rown = map (\<lambda>x. x / d) (sub_inv ! n)"
  have ln: "length (sub_inv ! n) = N" using sq(2) n by (rule is_square_row)
  have lU: "length U = N" using sq(1) by (simp add: U_def v is_square_length)
  have Uk: "\<And>k. k < N \<Longrightarrow> U ! k = v ! k - sub ! k ! n"
    using sq(1) by (simp add: U_def v is_square_length)
  have dd: "d = 1 + (\<Sum>k<N. sub_inv ! n ! k * (v ! k - sub ! k ! n))"
    by (simp add: d_def dot_sum lU ln Uk)
  have mv: "mat_vec sub_inv U = map (\<lambda>i. \<Sum>l<N. sub_inv ! i ! l * (v ! l - sub ! l ! n)) [0..<N]"
    by (simp add: mat_vec_square[OF sq(2) lU] Uk)
  have lr: "length rown = N" by (simp add: rown_def ln)
  have rk: "\<And>j. j < N \<Longrightarrow> rown ! j = sub_inv ! n ! j / d"
    by (simp add: rown_def ln)
  have o: "outer (mat_vec sub_inv U) rown
      = mat N N (\<lambda>i j. (\<Sum>l<N. sub_inv ! i ! l * (v ! l - sub ! l ! n)) * (sub_inv ! n ! j / d))"
    unfolding outer_mat by (simp add: lr mv) (rule mat_cong, simp add: rk)
  have "mat_sub sub_inv (outer (mat_vec sub_inv U) rown)
      = mat N N (\<lambda>i j. sub_inv ! i ! j - (\<Sum>l<N. sub_inv ! i ! l * (v ! l - sub ! l ! n)) * (sub_inv ! n ! j / d))"
    unfolding o by (subst mat_sub_square[OF sq(2) is_square_mat]) (rule mat_cong, simp)
  moreover have "set_col sub n v = mat N N (\<lambda>i j. if j = n then v ! i else sub ! i ! j)"
    by (rule square_set_col[OF sq(1) n v(2)])
  ultimately show ?thesis
    by (simp add: change_column_def Let_def v U_def[symmetric] d_def[symmetric] rown_def[symmetric] dd[symmetric])
qed

lemma is_inverse_matI:
  assumes "\<And>i j. i < N \<Longrightarrow> j < N \<Longrightarrow> (\<Sum>k<N. f i k * g k j) = (if i = j then 1 else 0)"
    and "\<And>i j. i < N \<Longrightarrow> j < N \<Longrightarrow> (\<Sum>k<N. g i k * f k j) = (if i = j then 1 else 0)"
  shows "is_inverse (mat N N f) (mat N N g)"
proof -
  have "\<And>i j. i < N \<Longrightarrow> j < N \<Longrightarrow> (\<Sum>k<N. mat N N f ! i ! k * mat N N g ! k ! j) = (\<Sum>k<N. f i k * g k j)"
    by (rule sum.cong) simp_all
  moreover have "\<And>i j. i < N \<Longrightarrow> j < N \<Longrightarrow> (\<Sum>k<N. mat N N g ! i ! k * mat N N f ! k ! j) = (\<Sum>k<N. g i k * f k j)"
    by (rule sum.cong) simp_all
  ultimately show ?thesis
    unfolding is_inverse_iff using assms by simp
qed

lemma is_inverse_right:
  "is_inverse A B \<Longrightarrow> length A = N \<Longrightarrow> i < N \<Longrightarrow> j < N \<Longrightarrow>
     (\<Sum>k<N. A ! i ! k * B ! k ! j) = (if i = j then 1 else 0)"
  unfolding is_inverse_iff by blast

lemma is_inverse_left:
  "is_inverse A B \<Longrightarrow> length A = N \<Longrightarrow> i < N \<Longrightarrow> j < N \<Longrightarrow>
     (\<Sum>k<N. B ! i ! k * A ! k ! j) = (if i = j then 1 else 0)"
  unfolding is_inverse_iff by blast

lemma is_inverse_square: "is_inverse A B \<Longrightarrow> length A = N \<Longrightarrow> is_square N A \<and> is_square N B"
  unfolding is_inverse_iff by blast

lemma sum_delta_right: "j < (N::nat) \<Longrightarrow> (\<Sum>k<N. (f k :: real) * (if k = j then 1 else 0)) = f j"
proof -
  assume j: "j < N"
  have "(\<Sum>k<N. f k * (if k = j then 1 else 0)) = (\<Sum>k<N. if k = j then f j else 0)"
    by (rule sum.cong) auto
  also have "\<dots> = f j" using j by simp
  finally show ?thesis .
qed

lemma is_inverse_unique:
  assumes B: "is_inverse A B" and C: "is_inverse A C"
  shows "B = C"
proof -
  define N where "N = length A"
  have N: "length A = N" by (simp add: N_def)
  have sqB: "is_square N B" and sqC: "is_square N C"
    using is_inverse_square[OF B N] is_inverse_square[OF C N] by simp_all
  have "B ! i ! j = C ! i ! j" if i: "i < N" and j: "j < N" for i j
  proof -
    have "B ! i ! j = (\<Sum>k<N. B ! i ! k * (if k = j then 1 else 0))"
      by (rule sum_delta_right[OF j, symmetric])
    also have "\<dots> = (\<Sum>k<N. B ! i ! k * (\<Sum>l<N. A ! k ! l * C ! l ! j))"
      by (rule sum.cong) (simp_all add: is_inverse_right[OF C N _ j])
    also have "\<dots> = (\<Sum>k<N. \<Sum>l<N. (B ! i ! k * A ! k ! l) * C ! l ! j)"
      by (simp add: sum_distrib_left mult.assoc)
    also have "\<dots> = (\<Sum>l<N. \<Sum>k<N. (B ! i ! k * A ! k ! l) * C ! l ! j)"
      by (rule sum.swap)
    also have "\<dots> = (\<Sum>l<N. (if i = l then 1 else 0) * C ! l ! j)"
      by (rule sum.cong) (simp_all add: sum_distrib_right[symmetric] is_inverse_left[OF B N i])
    also have "\<dots> = C ! i ! j" by (rule sum_delta_left[OF i])
    finally show ?thesis .
  qed
  then have "mat N N (\<lambda>i j. B ! i ! j) = mat N N (\<lambda>i j. C ! i ! j)"
    by (intro mat_cong)
  then show ?thesis
    using is_square_eq_mat[OF sqB] is_square_eq_mat[OF sqC] by simp
qed

lemma update_submatrix_step:
  assumes full: "is_square (Suc N) full" and n: "n < N"
    and sub: "sub = true_sub full n"
    and inv: "is_inverse sub sub_inv"
    and new: "is_inverse (true_sub full (Suc n)) C"
    and d: "row_denominator full sub sub_inv (Suc n) \<noteq> 0"
  shows "update_submatrix full sub sub_inv (Suc n) = (true_sub full (Suc n), C)"
proof -
  have lf: "length full = Suc N" using full by (rule is_square_length)
  have lfn: "length (full ! n) = Suc N" using n by (intro is_square_row[OF full]) simp
  define h where "h = fst (update_vectors full n)"
  define v where "v = snd (update_vectors full n)"
  have lh: "length h = N" using n by (simp add: h_def update_vectors_eq length_delete_at lfn)
  have lv: "length v = N" using n by (simp add: v_def update_vectors_eq length_delete_at lf)
  have hk: "h ! k = full ! n ! (if k < Suc n then k else Suc k)" if "k < N" for k
    using that n by (simp add: h_def update_vectors_eq delete_at_nth lfn)
  have vk: "v ! k = full ! (if k < Suc n then k else Suc k) ! n" if "k < N" for k
    using that n by (simp add: v_def update_vectors_eq delete_at_nth lf)
  have subm: "sub = mat N N (\<lambda>i j. full ! (if i < n then i else Suc i) ! (if j < n then j else Suc j))"
    unfolding sub using n by (intro true_sub_mat[OF full]) simp
  have lsub: "length sub = N" by (simp add: subm)
  have sq: "is_square N sub" "is_square N sub_inv"
    using is_inverse_square[OF inv lsub] by simp_all
  \<comment> \<open>the row step\<close>
  define d1 where "d1 = 1 + (\<Sum>k<N. (h ! k - sub ! n ! k) * sub_inv ! k ! n)"
  define a1 where "a1 = (\<lambda>i j. if i = n then h ! j else sub ! i ! j)"
  define b1 where "b1 = (\<lambda>i j. sub_inv ! i ! j - sub_inv ! i ! n / d1 * (\<Sum>l<N. (h ! l - sub ! n ! l) * sub_inv ! l ! j))"
  have d1: "d1 \<noteq> 0"
    using d row_denominator_eq[OF sq n h_def[symmetric] lh] by (simp add: d1_def)
  have row: "change_row full sub sub_inv (Suc n) = (mat N N a1, mat N N b1)"
    unfolding a1_def b1_def d1_def by (rule change_row_eq[OF sq n h_def[symmetric] lh])
  have inv1: "is_inverse (mat N N a1) (mat N N b1)"
  proof (rule is_inverse_matI)
    fix i j assume ij: "i < N" "j < N"
    show "(\<Sum>k<N. a1 i k * b1 k j) = (if i = j then 1 else 0)"
      unfolding a1_def b1_def d1_def
      by (rule sm_row_right[where a = "\<lambda>i j. sub ! i ! j" and b = "\<lambda>i j. sub_inv ! i ! j" and h = "\<lambda>k. h ! k",
            OF is_inverse_right[OF inv lsub] n d1[unfolded d1_def] ij])
    show "(\<Sum>k<N. b1 i k * a1 k j) = (if i = j then 1 else 0)"
      unfolding a1_def b1_def d1_def
      by (rule sm_row_left[where a = "\<lambda>i j. sub ! i ! j" and b = "\<lambda>i j. sub_inv ! i ! j" and h = "\<lambda>k. h ! k",
            OF is_inverse_left[OF inv lsub] n d1[unfolded d1_def] ij])
  qed
  \<comment> \<open>the column step\<close>
  define sub1 where "sub1 = mat N N a1"
  define sinv1 where "sinv1 = mat N N b1"
  have l1: "length sub1 = N" by (simp add: sub1_def)
  have sq1: "is_square N sub1" "is_square N sinv1" by (simp_all add: sub1_def sinv1_def)
  have inv1': "is_inverse sub1 sinv1" using inv1 by (simp add: sub1_def sinv1_def)
  define d2 where "d2 = 1 + (\<Sum>k<N. sinv1 ! n ! k * (v ! k - sub1 ! k ! n))"
  define a2 where "a2 = (\<lambda>i j. if j = n then v ! i else sub1 ! i ! j)"
  define b2 where "b2 = (\<lambda>i j. sinv1 ! i ! j - (\<Sum>l<N. sinv1 ! i ! l * (v ! l - sub1 ! l ! n)) * (sinv1 ! n ! j / d2))"
  have colm: "change_column full sub1 sinv1 (Suc n) = (mat N N a2, mat N N b2)"
    unfolding a2_def b2_def d2_def by (rule change_column_eq[OF sq1 n v_def[symmetric] lv])
  have a2: "mat N N a2 = true_sub full (Suc n)"
  proof -
    have "a2 i j = full ! (if i < Suc n then i else Suc i) ! (if j < Suc n then j else Suc j)"
      if "i < N" "j < N" for i j
      using that n by (auto simp: a2_def sub1_def a1_def vk hk subm)
    then have "mat N N a2 = mat N N (\<lambda>i j. full ! (if i < Suc n then i else Suc i) ! (if j < Suc n then j else Suc j))"
      by (intro mat_cong)
    also have "\<dots> = true_sub full (Suc n)"
      using n by (intro true_sub_mat[OF full, symmetric]) simp
    finally show ?thesis .
  qed
  have lt: "length (true_sub full (Suc n)) = N" using a2[symmetric] by simp
  have d2: "d2 \<noteq> 0"
    unfolding d2_def
  proof (rule sm_col_denominator[where a = "\<lambda>i j. sub1 ! i ! j" and b = "\<lambda>i j. sinv1 ! i ! j"
        and c = "\<lambda>i j. C ! i ! j" and v = "\<lambda>k. v ! k", OF is_inverse_right[OF inv1' l1] _ n])
    fix i j assume ij: "i < N" "j < N"
    have "(\<Sum>k<N. C ! i ! k * (if j = n then v ! k else sub1 ! k ! j)) = (\<Sum>k<N. C ! i ! k * true_sub full (Suc n) ! k ! j)"
      by (rule sum.cong) (simp_all add: a2[symmetric] a2_def ij)
    then show "(\<Sum>k<N. C ! i ! k * (if j = n then v ! k else sub1 ! k ! j)) = (if i = j then 1 else 0)"
      using is_inverse_left[OF new lt ij] by simp
  qed
  have inv2: "is_inverse (mat N N a2) (mat N N b2)"
  proof (rule is_inverse_matI)
    fix i j assume ij: "i < N" "j < N"
    show "(\<Sum>k<N. a2 i k * b2 k j) = (if i = j then 1 else 0)"
      unfolding a2_def b2_def d2_def
      by (rule sm_col_right[where a = "\<lambda>i j. sub1 ! i ! j" and b = "\<lambda>i j. sinv1 ! i ! j" and v = "\<lambda>k. v ! k",
            OF is_inverse_right[OF inv1' l1] n d2[unfolded d2_def] ij])
    show "(\<Sum>k<N. b2 i k * a2 k j) = (if i = j then 1 else 0)"
      unfolding a2_def b2_def d2_def
      by (rule sm_col_left[where a = "\<lambda>i j. sub1 ! i ! j" and b = "\<lambda>i j. sinv1 ! i ! j" and v = "\<lambda>k. v ! k",
            OF is_inverse_left[OF inv1' l1] n d2[unfolded d2_def] ij])
  qed
  have "mat N N b2 = C"
    using inv2 new by (simp add: a2 is_inverse_unique)
  then show ?thesis
    by (simp add: update_submatrix_def row colm[unfolded sub1_def sinv1_def] a2)
qed

lemma transpose_square: "is_square n M \<Longrightarrow> transpose_m M = mat n n (\<lambda>i j. M ! j ! i)"
  by (simp add: transpose_m_def is_square_ncols is_square_length)

lemma mat_add_square:
  assumes "is_square n A" "is_square n B"
  shows "mat_add A B = mat n n (\<lambda>i j. A ! i ! j + B ! i ! j)"
proof (rule nth_equalityI)
  show "length (mat_add A B) = length (mat n n (\<lambda>i j. A ! i ! j + B ! i ! j))"
    using assms by (simp add: mat_add_def is_square_length)
  fix i assume "i < length (mat_add A B)"
  then have i: "i < n" using assms by (simp add: mat_add_def is_square_length)
  have "map2 (\<lambda>a b. a + b) (A ! i) (B ! i) = map (\<lambda>j. A ! i ! j + B ! i ! j) [0..<n]"
    by (rule nth_equalityI) (use assms i in \<open>simp_all add: is_square_row\<close>)
  then show "mat_add A B ! i = mat n n (\<lambda>i j. A ! i ! j + B ! i ! j) ! i"
    using assms i by (simp add: mat_add_def is_square_length)
qed

lemma symmetrize_square:
  assumes sq: "is_square n M"
  shows "symmetrize M = mat n n (\<lambda>i j. (M ! i ! j + M ! j ! i) / 2)"
proof -
  have "mat_add M (transpose_m M) = mat n n (\<lambda>i j. M ! i ! j + M ! j ! i)"
    unfolding transpose_square[OF sq]
    by (subst mat_add_square[OF sq is_square_mat]) (rule mat_cong, simp)
  then show ?thesis
    by (simp add: symmetrize_def mat_def)
qed

lemma is_symmetric_mat:
  "(\<And>i j. i < n \<Longrightarrow> j < n \<Longrightarrow> f i j = f j i) \<Longrightarrow> is_symmetric (mat n n f)"
  unfolding is_symmetric_def by (simp, rule mat_cong, simp)

lemma is_symmetric_square: "is_symmetric M \<Longrightarrow> is_square (length M) M"
  unfolding is_symmetric_def by (metis is_square_mat)

lemma is_symmetric_entry:
  "is_symmetric M \<Longrightarrow> i < length M \<Longrightarrow> j < length M \<Longrightarrow> M ! i ! j = M ! j ! i"
  unfolding is_symmetric_def by (metis mat_entry)

lemma symmetrize_symmetric: "is_square n M \<Longrightarrow> is_symmetric (symmetrize M)"
  unfolding symmetrize_square by (rule is_symmetric_mat) (simp add: add.commute)

lemma symmetrize_fixes_symmetric:
  assumes "is_symmetric M"
  shows "symmetrize M = M"
proof -
  have sq: "is_square (length M) M" using assms by (rule is_symmetric_square)
  have "symmetrize M = mat (length M) (length M) (\<lambda>i j. M ! i ! j)"
    unfolding symmetrize_square[OF sq]
    by (rule mat_cong) (simp add: is_symmetric_entry[OF assms])
  then show ?thesis using is_square_eq_mat[OF sq] by simp
qed

lemma symmetrize_idem: "is_square n M \<Longrightarrow> symmetrize (symmetrize M) = symmetrize M"
  by (rule symmetrize_fixes_symmetric) (rule symmetrize_symmetric)


section \<open>symmetrize\<close>

text \<open>
  Claim C10. For every square matrix, symmetrizing twice gives what symmetrizing once
  gives, and a matrix that is symmetric already is left as it is (in exact arithmetic).
\<close>

theorem symmetrize_idempotent:
  "(is_square n M \<longrightarrow> symmetrize (symmetrize M) = symmetrize M)
   \<and> (is_symmetric S \<longrightarrow> symmetrize S = S)"
  by (simp add: symmetrize_idem symmetrize_fixes_symmetric)

theorem symmetrize_idempotent_witness:
  "is_square 2 [[1, 2], [4, 3]]
   \<and> symmetrize (symmetrize [[1, 2], [4, 3]]) = symmetrize [[1, 2], [4, 3]]
   \<and> is_symmetric [[1, 3], [3, 3]]
   \<and> symmetrize [[1, 3], [3, 3]] = [[1, 3], [3, 3]]"
proof -
  have sq: "is_square 2 [[1, 2], [4, 3]]" by code_simp
  have sy: "is_symmetric [[1, 3], [3, 3]]" by code_simp
  from symmetrize_idempotent[of 2 "[[1, 2], [4, 3]]" "[[1, 3], [3, 3]]"] sq sy
  show ?thesis by blast
qed

section \<open>The submatrix and its inverse\<close>

lemma advance_pivots_exact:
  assumes full: "is_square (Suc N) full"
    and inv: "\<And>q. q \<le> r \<Longrightarrow> is_inverse (true_sub full q) (Cs q)"
    and den: "\<And>q. q < r \<Longrightarrow> row_denominator full (true_sub full q) (Cs q) (Suc q) \<noteq> 0"
    and q: "q \<le> r" and r: "r \<le> N"
  shows "advance_pivots full q (true_sub full 0, Cs 0) = (true_sub full q, Cs q)"
  using q
proof (induction q)
  case 0
  show ?case by simp
next
  case (Suc q)
  then have st: "advance_pivots full q (true_sub full 0, Cs 0) = (true_sub full q, Cs q)"
    by simp
  have "update_submatrix full (true_sub full q) (Cs q) (Suc q) = (true_sub full (Suc q), Cs (Suc q))"
  proof (rule update_submatrix_step[OF full])
    show "q < N" using Suc.prems r by simp
    show "true_sub full q = true_sub full q" by simp
    show "is_inverse (true_sub full q) (Cs q)" using Suc.prems by (intro inv) simp
    show "is_inverse (true_sub full (Suc q)) (Cs (Suc q))" using Suc.prems by (intro inv)
    show "row_denominator full (true_sub full q) (Cs q) (Suc q) \<noteq> 0"
      using Suc.prems by (intro den) simp
  qed
  then show ?case by (simp add: st)
qed

text \<open>
  Claim C2, as the source has it. Let \<open>full\<close> be square, \<open>sub\<close> the array \<open>full\<close> without
  row and column \<open>p - 1\<close>, and \<open>sub_inv\<close> its exact inverse. If \<open>full\<close> without row and
  column \<open>p\<close> is invertible, with inverse \<open>C\<close>, and the divisor of the row step,
  \<^verbatim>\<open>1. + np.dot(V, coln)\<close>, is not zero, then \<^verbatim>\<open>update_submatrix\<close> leaves in \<open>sub\<close> the array
  \<open>full\<close> without row and column \<open>p\<close> and in \<open>sub_inv\<close> its inverse \<open>C\<close>. Run for the
  pivots \<open>1, \<dots>, r\<close> in turn from direct deletion and direct inversion at pivot \<open>0\<close>, it
  gives at every pivot what direct deletion and direct inversion give, as long as the
  row step's divisor is not zero at any of them.
\<close>

theorem update_submatrix_exact:
  "is_square (Suc N) full \<longrightarrow>
     (1 \<le> p \<and> p \<le> N
        \<and> is_inverse (true_sub full (p - 1)) sub_inv
        \<and> is_inverse (true_sub full p) C
        \<and> row_denominator full (true_sub full (p - 1)) sub_inv p \<noteq> 0
      \<longrightarrow> update_submatrix full (true_sub full (p - 1)) sub_inv p = (true_sub full p, C))
     \<and> (r \<le> N
          \<and> (\<forall>q\<le>r. is_inverse (true_sub full q) (Cs q))
          \<and> (\<forall>q<r. row_denominator full (true_sub full q) (Cs q) (Suc q) \<noteq> 0)
        \<longrightarrow> (\<forall>q\<le>r. advance_pivots full q (true_sub full 0, Cs 0) = (true_sub full q, Cs q)))"
proof (intro impI conjI allI)
  assume full: "is_square (Suc N) full"
  {
    assume h: "1 \<le> p \<and> p \<le> N
        \<and> is_inverse (true_sub full (p - 1)) sub_inv
        \<and> is_inverse (true_sub full p) C
        \<and> row_denominator full (true_sub full (p - 1)) sub_inv p \<noteq> 0"
    then obtain n where p: "p = Suc n" by (cases p) auto
    with h have "n < N" by simp
    from update_submatrix_step[OF full this refl, of sub_inv C] h p
    show "update_submatrix full (true_sub full (p - 1)) sub_inv p = (true_sub full p, C)"
      by simp
  }
  {
    fix q
    assume h: "r \<le> N
          \<and> (\<forall>q\<le>r. is_inverse (true_sub full q) (Cs q))
          \<and> (\<forall>q<r. row_denominator full (true_sub full q) (Cs q) (Suc q) \<noteq> 0)"
      and q: "q \<le> r"
    show "advance_pivots full q (true_sub full 0, Cs 0) = (true_sub full q, Cs q)"
      by (rule advance_pivots_exact[OF full _ _ q]) (use h in simp_all)
  }
qed

theorem update_submatrix_exact_witness:
  "is_square 3 [[2, 1, 0], [1, 2, 1], [0, 1, 2]]
   \<and> is_inverse (true_sub [[2, 1, 0], [1, 2, 1], [0, 1, 2]] 0) [[2 / 3, - 1 / 3], [- 1 / 3, 2 / 3]]
   \<and> is_inverse (true_sub [[2, 1, 0], [1, 2, 1], [0, 1, 2]] 1) [[1 / 2, 0], [0, 1 / 2]]
   \<and> is_inverse (true_sub [[2, 1, 0], [1, 2, 1], [0, 1, 2]] 2) [[2 / 3, - 1 / 3], [- 1 / 3, 2 / 3]]
   \<and> row_denominator [[2, 1, 0], [1, 2, 1], [0, 1, 2]]
        (true_sub [[2, 1, 0], [1, 2, 1], [0, 1, 2]] 0) [[2 / 3, - 1 / 3], [- 1 / 3, 2 / 3]] 1 \<noteq> 0
   \<and> row_denominator [[2, 1, 0], [1, 2, 1], [0, 1, 2]]
        (true_sub [[2, 1, 0], [1, 2, 1], [0, 1, 2]] 1) [[1 / 2, 0], [0, 1 / 2]] 2 \<noteq> 0
   \<and> update_submatrix [[2, 1, 0], [1, 2, 1], [0, 1, 2]]
        (true_sub [[2, 1, 0], [1, 2, 1], [0, 1, 2]] 0) [[2 / 3, - 1 / 3], [- 1 / 3, 2 / 3]] 1
      = (true_sub [[2, 1, 0], [1, 2, 1], [0, 1, 2]] 1, [[1 / 2, 0], [0, 1 / 2]])
   \<and> advance_pivots [[2, 1, 0], [1, 2, 1], [0, 1, 2]] 2
        (true_sub [[2, 1, 0], [1, 2, 1], [0, 1, 2]] 0, [[2 / 3, - 1 / 3], [- 1 / 3, 2 / 3]])
      = (true_sub [[2, 1, 0], [1, 2, 1], [0, 1, 2]] 2, [[2 / 3, - 1 / 3], [- 1 / 3, 2 / 3]])"
proof -
  define F :: matrix where "F = [[2, 1, 0], [1, 2, 1], [0, 1, 2]]"
  define A :: matrix where "A = [[2 / 3, - 1 / 3], [- 1 / 3, 2 / 3]]"
  define B :: matrix where "B = [[1 / 2, 0], [0, 1 / 2]]"
  define Cs :: "nat \<Rightarrow> matrix" where "Cs = (\<lambda>q. [A, B, A] ! q)"
  have sq: "is_square (Suc 2) F" unfolding F_def by code_simp
  have i0: "is_inverse (true_sub F 0) A" unfolding F_def A_def by code_simp
  have i1: "is_inverse (true_sub F 1) B" unfolding F_def B_def by code_simp
  have i2: "is_inverse (true_sub F 2) A" unfolding F_def A_def by code_simp
  have d1: "row_denominator F (true_sub F 0) A 1 \<noteq> 0" unfolding F_def A_def by code_simp
  have d2: "row_denominator F (true_sub F 1) B 2 \<noteq> 0" unfolding F_def B_def by code_simp
  have cs: "Cs 0 = A" "Cs 1 = B" "Cs 2 = A" by (simp_all add: Cs_def)
  have inv: "\<forall>q\<le>2. is_inverse (true_sub F q) (Cs q)"
  proof (intro allI impI)
    fix q :: nat assume "q \<le> 2"
    then consider "q = 0" | "q = 1" | "q = 2" by linarith
    then show "is_inverse (true_sub F q) (Cs q)"
      by cases (use i0 i1 i2 cs in simp_all)
  qed
  have den: "\<forall>q<2. row_denominator F (true_sub F q) (Cs q) (Suc q) \<noteq> 0"
  proof (intro allI impI)
    fix q :: nat assume "q < 2"
    then consider "q = 0" | "q = 1" by linarith
    then show "row_denominator F (true_sub F q) (Cs q) (Suc q) \<noteq> 0"
      by cases (use d1 d2 cs in \<open>simp_all add: numeral_2_eq_2\<close>)
  qed
  from update_submatrix_exact[of 2 F 1 A B 2 Cs] sq i0 i1 d1 inv den
  have "update_submatrix F (true_sub F 0) A 1 = (true_sub F 1, B)"
    and "advance_pivots F 2 (true_sub F 0, Cs 0) = (true_sub F 2, Cs 2)"
    by simp_all
  with sq i0 i1 i2 d1 d2 cs show ?thesis
    unfolding F_def A_def B_def by (simp add: numeral_3_eq_3)
qed

text \<open>
  Without the condition on the divisor the claim fails. For the symmetric positive definite
  \<open>full\<close> below and \<open>p = 1\<close>, both submatrices are invertible and \<open>sub_inv\<close> is exact, but the
  matrix with only the row replaced is singular: the source divides by zero there, and
  what it leaves in \<open>sub_inv\<close> is not the inverse of the new submatrix.
\<close>

theorem update_submatrix_exact_counterexample:
  "is_square 3 [[1, 0, 1 / 2], [0, 10, 2], [1 / 2, 2, 1]]
   \<and> is_inverse (true_sub [[1, 0, 1 / 2], [0, 10, 2], [1 / 2, 2, 1]] 0)
        [[1 / 6, - 1 / 3], [- 1 / 3, 5 / 3]]
   \<and> is_inverse (true_sub [[1, 0, 1 / 2], [0, 10, 2], [1 / 2, 2, 1]] 1)
        [[4 / 3, - 2 / 3], [- 2 / 3, 4 / 3]]
   \<and> row_denominator [[1, 0, 1 / 2], [0, 10, 2], [1 / 2, 2, 1]]
        (true_sub [[1, 0, 1 / 2], [0, 10, 2], [1 / 2, 2, 1]] 0)
        [[1 / 6, - 1 / 3], [- 1 / 3, 5 / 3]] 1 = 0
   \<and> \<not> is_inverse (true_sub [[1, 0, 1 / 2], [0, 10, 2], [1 / 2, 2, 1]] 1)
          (snd (update_submatrix [[1, 0, 1 / 2], [0, 10, 2], [1 / 2, 2, 1]]
                  (true_sub [[1, 0, 1 / 2], [0, 10, 2], [1 / 2, 2, 1]] 0)
                  [[1 / 6, - 1 / 3], [- 1 / 3, 5 / 3]] 1))"
  by code_simp

section \<open>What each piece of the loop changes\<close>

lemma initial_submatrices_Inr:
  "initial_submatrices L E s = Inr s' \<Longrightarrow>
     s' = s\<lparr>W := map (\<lambda>M. map (drop 1) (drop 1 M)) (omega s),
            Winv := map (\<lambda>Wk. mat (n_var E - 1) (n_var E - 1) (linalg_inv L Wk))
                      (map (\<lambda>M. map (drop 1) (drop 1 M)) (omega s))\<rparr>"
  by (simp add: initial_submatrices_def Let_def split: if_splits)

lemma advance_submatrices_Inr:
  "advance_submatrices L E p s = Inr s' \<Longrightarrow>
     s' = s\<lparr>W := map (\<lambda>k. fst (update_submatrix (omega s ! k) (W s ! k) (Winv s ! k) p)) [0..<n_tasks E],
            Winv := map (\<lambda>k. snd (update_submatrix (omega s ! k) (W s ! k) (Winv s ! k) p)) [0..<n_tasks E]\<rparr>"
  by (simp add: advance_submatrices_def Let_def comp_def split: if_splits)

lemma update_submatrices_frame:
  assumes "update_submatrices L E p s = Inr s'"
  shows "emp_covs s' = emp_covs s" "omega s' = omega s" "costs s' = costs s"
    "warnings s' = warnings s"
  using assms initial_submatrices_Inr[of L E s s'] advance_submatrices_Inr[of L E p s s']
  by (auto simp: update_submatrices_def split: if_splits)

lemma update_submatrices_error:
  "update_submatrices L E p s = Inl e \<Longrightarrow> e = AssertionError \<and> debug E"
  by (auto simp: update_submatrices_def initial_submatrices_def advance_submatrices_def Let_def
      split: if_splits)

lemma extract_vectors_frame [simp]:
  "emp_covs (extract_vectors p s) = emp_covs s" "omega (extract_vectors p s) = omega s"
  "W (extract_vectors p s) = W s" "Winv (extract_vectors p s) = Winv s"
  "costs (extract_vectors p s) = costs s" "warnings (extract_vectors p s) = warnings s"
  by (simp_all add: extract_vectors_def)

lemma coordinate_step_frame:
  assumes "coordinate_step L E p m s = Inr s'"
  shows "emp_covs s' = emp_covs s" "omega s' = omega s" "W s' = W s" "Winv s' = Winv s"
    "u s' = u s" "costs s' = costs s"
  using assms by (auto simp: coordinate_step_def Let_def split: if_splits option.splits)

lemma coordinate_step_error:
  "coordinate_step L E p m s = Inl e \<Longrightarrow>
     e = AssertionError \<and> debug E
     \<or> e = RuntimeError \<and> (\<exists>f g. newton L f 0 g 50 = None)"
  by (auto simp: coordinate_step_def Let_def split: if_splits option.splits)

lemma coordinate_descent_frame:
  "coordinate_descent L E p ms s = Inr s' \<Longrightarrow>
     emp_covs s' = emp_covs s \<and> omega s' = omega s \<and> W s' = W s \<and> Winv s' = Winv s
     \<and> u s' = u s \<and> costs s' = costs s"
proof (induction ms arbitrary: s)
  case Nil
  then show ?case by simp
next
  case (Cons m ms)
  then obtain s1 where 1: "coordinate_step L E p m s = Inr s1"
    and 2: "coordinate_descent L E p ms s1 = Inr s'"
    by (auto split: sum.splits)
  from Cons.IH[OF 2] coordinate_step_frame[OF 1] show ?case by simp
qed

lemma coordinate_descent_error:
  "coordinate_descent L E p ms s = Inl e \<Longrightarrow>
     e = AssertionError \<and> debug E
     \<or> e = RuntimeError \<and> (\<exists>f g. newton L f 0 g 50 = None)"
proof (induction ms arbitrary: s)
  case Nil
  then show ?case by simp
next
  case (Cons m ms)
  then show ?case
    by (auto split: sum.splits dest: coordinate_step_error)
qed

lemma copy_back_frame [simp]:
  "emp_covs (copy_back E p s) = emp_covs s" "W (copy_back E p s) = W s"
  "Winv (copy_back E p s) = Winv s" "y (copy_back E p s) = y s" "u (copy_back E p s) = u s"
  "costs (copy_back E p s) = costs s" "warnings (copy_back E p s) = warnings s"
  by (simp_all add: copy_back_def)

lemma set_diagonal_Inr:
  "set_diagonal L E p s = Inr s' \<Longrightarrow>
     s' = s\<lparr>omega := map (\<lambda>k. set_entry (omega s ! k) p p
                          (1 / (emp_covs s ! k ! p ! p)
                           + dot (vec_mat (y s ! k) (Winv s ! k)) (y s ! k)))
                     [0..<n_tasks E]\<rparr>"
  by (simp add: set_diagonal_def Let_def split: if_splits)

lemma set_diagonal_error:
  "set_diagonal L E p s = Inl e \<Longrightarrow> e = AssertionError \<and> debug E"
  by (auto simp: set_diagonal_def Let_def split: if_splits)

lemma record_cost_frame [simp]:
  "emp_covs (record_cost L E s) = emp_covs s" "omega (record_cost L E s) = omega s"
  "W (record_cost L E s) = W s" "Winv (record_cost L E s) = Winv s"
  "y (record_cost L E s) = y s" "u (record_cost L E s) = u s"
  "warnings (record_cost L E s) = warnings s"
  by (simp_all add: record_cost_def)

lemma length_costs_record_cost [simp]:
  "length (costs (record_cost L E s)) = (if return_costs E then Suc (length (costs s)) else length (costs s))"
  by (simp add: record_cost_def)

text \<open>the stages of a pivot update that returns\<close>

lemma pivot_update_stages:
  assumes "pivot_update L E p s = Inr s'"
  obtains s1 s2 s3 where
    "update_submatrices L E p s = Inr s1"
    "coordinate_descent L E p [0..<n_var E - 1] (extract_vectors p s1) = Inr s2"
    "set_diagonal L E p (copy_back E p s2) = Inr s3"
    "s' = record_cost L E s3"
  using assms by (auto simp: pivot_update_def split: sum.splits)

lemma pivot_update_error:
  "pivot_update L E p s = Inl e \<Longrightarrow>
     e = AssertionError \<and> debug E
     \<or> e = RuntimeError \<and> (\<exists>f g. newton L f 0 g 50 = None)"
  by (auto simp: pivot_update_def split: sum.splits
      dest: update_submatrices_error coordinate_descent_error set_diagonal_error)

lemma pivot_update_emp_covs:
  assumes "pivot_update L E p s = Inr s'"
  shows "emp_covs s' = emp_covs s"
proof -
  from assms obtain s1 s2 s3 where
    1: "update_submatrices L E p s = Inr s1"
    and 2: "coordinate_descent L E p [0..<n_var E - 1] (extract_vectors p s1) = Inr s2"
    and 3: "set_diagonal L E p (copy_back E p s2) = Inr s3"
    and 4: "s' = record_cost L E s3"
    by (rule pivot_update_stages)
  have "emp_covs s3 = emp_covs s2" using set_diagonal_Inr[OF 3] by simp
  with update_submatrices_frame(1)[OF 1] coordinate_descent_frame[OF 2] 4
  show ?thesis by simp
qed

lemma pivot_loop_emp_covs:
  "pivot_loop L E ps s = Inr s' \<Longrightarrow> emp_covs s' = emp_covs s"
proof (induction ps arbitrary: s)
  case Nil
  then show ?case by simp
next
  case (Cons p ps)
  then obtain s1 where 1: "pivot_update L E p s = Inr s1" and 2: "pivot_loop L E ps s1 = Inr s'"
    by (auto split: sum.splits)
  from Cons.IH[OF 2] pivot_update_emp_covs[OF 1] show ?case by simp
qed

lemma pivot_loop_error:
  "pivot_loop L E ps s = Inl e \<Longrightarrow>
     e = AssertionError \<and> debug E
     \<or> e = RuntimeError \<and> (\<exists>f g. newton L f 0 g 50 = None)"
proof (induction ps arbitrary: s)
  case Nil
  then show ?case by simp
next
  case (Cons p ps)
  then show ?case by (auto split: sum.splits dest: pivot_update_error)
qed

lemma pivot_loop_append:
  "pivot_loop L E (ps @ qs) s =
     (case pivot_loop L E ps s of Inl e \<Rightarrow> Inl e | Inr s' \<Rightarrow> pivot_loop L E qs s')"
  by (induction ps arbitrary: s) (auto split: sum.splits)

lemma sweep_loop_pivot_loop:
  "sweep_loop L E n s = pivot_loop L E (concat (replicate n [0..<n_var E])) s"
proof (induction n arbitrary: s)
  case 0
  show ?case by simp
next
  case (Suc n)
  show ?case by (simp add: pivot_loop_append Suc.IH split: sum.splits)
qed

section \<open>Shapes and symmetry of the estimates\<close>

lemma estimates_shapeD:
  "estimates_shape E ms \<Longrightarrow> k < n_tasks E \<Longrightarrow> is_square (n_var E) (ms ! k)"
  by (simp add: estimates_shape_def list_all_length)

lemma vectors_shapeD:
  "vectors_shape E vs \<Longrightarrow> k < n_tasks E \<Longrightarrow> length (vs ! k) = n_var E - 1"
  by (simp add: vectors_shape_def list_all_length)

lemma is_square_write_back [simp]: "is_square n (write_back n p yk M)"
  by (simp add: write_back_def)

lemma is_square_set_entry [simp]: "is_square n M \<Longrightarrow> is_square n (set_entry M i j x)"
proof -
  assume sq: "is_square n M"
  have "length (M[i := (M ! i)[j := x]] ! a) = n" if "a < n" for a
    using that sq by (cases "a = i") (simp_all add: is_square_length is_square_row)
  then show ?thesis
    using sq by (simp add: is_square_def set_entry_def list_all_length)
qed

lemma set_entry_nth:
  "is_square n M \<Longrightarrow> i < n \<Longrightarrow> j < n \<Longrightarrow> a < n \<Longrightarrow> b < n \<Longrightarrow>
     set_entry M i j x ! a ! b = (if a = i \<and> b = j then x else M ! a ! b)"
  by (auto simp: set_entry_def is_square_length is_square_row nth_list_update)

lemma is_symmetricI:
  assumes "is_square n M" "\<And>i j. i < n \<Longrightarrow> j < n \<Longrightarrow> M ! i ! j = M ! j ! i"
  shows "is_symmetric M"
proof -
  have "M = mat n n (\<lambda>i j. M ! i ! j)" using assms(1) by (rule is_square_eq_mat)
  also have "\<dots> = mat n n (\<lambda>i j. M ! j ! i)" by (rule mat_cong) (rule assms(2))
  finally show ?thesis using assms(1) by (simp add: is_symmetric_def is_square_length)
qed

lemma is_symmetric_write_back:
  assumes "is_symmetric M" "length M = n"
  shows "is_symmetric (write_back n p yk M)"
  unfolding write_back_def
  by (rule is_symmetric_mat) (use is_symmetric_entry[OF assms(1)] assms(2) in auto)

lemma is_symmetric_set_entry:
  assumes "is_symmetric M"
  shows "is_symmetric (set_entry M p p x)"
proof (cases "p < length M")
  case True
  have sq: "is_square (length M) M" using assms by (rule is_symmetric_square)
  show ?thesis
  proof (rule is_symmetricI[where n = "length M"])
    show "is_square (length M) (set_entry M p p x)" using sq by simp
    fix i j assume "i < length M" "j < length M"
    then show "set_entry M p p x ! i ! j = set_entry M p p x ! j ! i"
      using is_symmetric_entry[OF assms, of i j] True by (auto simp: set_entry_nth[OF sq])
  qed
next
  case False
  then show ?thesis using assms by (simp add: set_entry_def list_update_beyond)
qed

lemma length_set_entry [simp]: "length (set_entry M i j x) = length M"
  by (simp add: set_entry_def)

lemma length_write_back [simp]: "length (write_back n p yk M) = n"
  by (simp add: write_back_def)

text \<open>what a pivot update leaves in \<open>omega\<close>\<close>

lemma pivot_update_omega:
  assumes "pivot_update L E p s = Inr s'"
  obtains s2 where
    "\<exists>s1. update_submatrices L E p s = Inr s1
        \<and> coordinate_descent L E p [0..<n_var E - 1] (extract_vectors p s1) = Inr s2"
    "omega s' = map (\<lambda>k. set_entry (write_back (n_var E) p (y s2 ! k) (omega s ! k)) p p
                        (1 / (emp_covs s ! k ! p ! p)
                         + dot (vec_mat (y s2 ! k) (Winv s2 ! k)) (y s2 ! k)))
                  [0..<n_tasks E]"
    "y s' = y s2" "Winv s' = Winv s2" "emp_covs s' = emp_covs s"
proof -
  from assms obtain s1 s2 s3 where
    1: "update_submatrices L E p s = Inr s1"
    and 2: "coordinate_descent L E p [0..<n_var E - 1] (extract_vectors p s1) = Inr s2"
    and 3: "set_diagonal L E p (copy_back E p s2) = Inr s3"
    and 4: "s' = record_cost L E s3"
    by (rule pivot_update_stages)
  have f: "emp_covs s2 = emp_covs s" "omega s2 = omega s"
    using coordinate_descent_frame[OF 2] update_submatrices_frame[OF 1] by simp_all
  have "omega s' = map (\<lambda>k. set_entry (write_back (n_var E) p (y s2 ! k) (omega s ! k)) p p
                        (1 / (emp_covs s ! k ! p ! p)
                         + dot (vec_mat (y s2 ! k) (Winv s2 ! k)) (y s2 ! k)))
                  [0..<n_tasks E]"
    unfolding 4 set_diagonal_Inr[OF 3] by (simp add: f) (simp add: copy_back_def f)
  moreover have "y s' = y s2" "Winv s' = Winv s2" "emp_covs s' = emp_covs s"
    unfolding 4 set_diagonal_Inr[OF 3] by (simp_all add: f)
  ultimately show ?thesis using that 1 2 by blast
qed

lemma pivot_update_shape:
  assumes "pivot_update L E p s = Inr s'"
  shows "estimates_shape E (omega s')"
  using assms by (rule pivot_update_omega) (simp add: estimates_shape_def list_all_iff)

lemma pivot_update_symmetric:
  assumes "pivot_update L E p s = Inr s'"
    and "length (omega s) = n_tasks E"
    and "list_all (\<lambda>M. length M = n_var E \<and> is_symmetric M) (omega s)"
  shows "length (omega s') = n_tasks E \<and> list_all (\<lambda>M. length M = n_var E \<and> is_symmetric M) (omega s')"
proof -
  have "\<And>k. k < n_tasks E \<Longrightarrow> is_symmetric (omega s ! k) \<and> length (omega s ! k) = n_var E"
    using assms(2,3) by (simp add: list_all_length)
  then show ?thesis
    using assms(1)
    by (elim pivot_update_omega)
       (simp add: list_all_iff is_symmetric_set_entry is_symmetric_write_back)
qed

lemma initial_state_symmetric:
  assumes "length emp = n_tasks E"
  shows "length (omega (initial_state E emp)) = n_tasks E
     \<and> list_all (\<lambda>M. length M = n_var E \<and> is_symmetric M) (omega (initial_state E emp))"
  using assms by (simp add: initial_state_def list_all_iff is_symmetric_mat)

lemma pivot_loop_symmetric:
  "pivot_loop L E ps s = Inr s' \<Longrightarrow> length (omega s) = n_tasks E \<Longrightarrow>
     list_all (\<lambda>M. length M = n_var E \<and> is_symmetric M) (omega s) \<Longrightarrow>
     length (omega s') = n_tasks E \<and> list_all (\<lambda>M. length M = n_var E \<and> is_symmetric M) (omega s')"
proof (induction ps arbitrary: s)
  case Nil
  then show ?case by simp
next
  case (Cons p ps)
  then obtain s1 where 1: "pivot_update L E p s = Inr s1" and 2: "pivot_loop L E ps s1 = Inr s'"
    by (auto split: sum.splits)
  from pivot_update_symmetric[OF 1 Cons.prems(2,3)] Cons.IH[OF 2] show ?case by simp
qed

section \<open>The coordinate-descent pass\<close>

lemma extract_vectors_shape:
  assumes "estimates_shape E (omega s)" "p < n_var E"
  shows "vectors_shape E (y (extract_vectors p s))"
proof -
  have "length (take p (col M p) @ drop (p + 1) (col M p)) = n_var E - 1"
    if "is_square (n_var E) M" for M
    using that assms(2) by (simp add: is_square_length)
  then show ?thesis
    using assms(1)
    by (simp add: extract_vectors_def vectors_shape_def estimates_shape_def list_all_iff)
qed

lemma coordinate_step_zero:
  "sqrt (dot (c_vector E p m s) (c_vector E p m s)) \<le> rho E \<Longrightarrow>
     coordinate_step L E p m s = Inr (s\<lparr>y := map (\<lambda>yk. yk[m := 0]) (y s)\<rparr>)"
  by (simp add: coordinate_step_def Let_def)

lemma coordinate_step_y:
  assumes "coordinate_step L E p m s = Inr s'" "vectors_shape E (y s)"
  obtains xs where "length xs = n_tasks E" "y s' = map (\<lambda>k. (y s ! k)[m := xs ! k]) [0..<n_tasks E]"
proof (cases "sqrt (dot (c_vector E p m s) (c_vector E p m s)) \<le> rho E")
  case True
  have "map (\<lambda>yk. yk[m := 0]) (y s) = map (\<lambda>k. (y s ! k)[m := replicate (n_tasks E) 0 ! k]) [0..<n_tasks E]"
    using assms(2) by (intro nth_equalityI) (simp_all add: vectors_shape_def)
  moreover have "y s' = map (\<lambda>yk. yk[m := 0]) (y s)"
    using assms(1) coordinate_step_zero[OF True, of L] by auto
  ultimately show ?thesis
    using that[of "replicate (n_tasks E) 0"] by simp
next
  case False
  define c where "c = c_vector E p m s"
  define q where "q = map (\<lambda>k. n_samples E ! k * emp_covs s ! k ! p ! p * (Winv s ! k ! m ! m)) [0..<n_tasks E]"
  define found where "found = newton L
      (\<lambda>a. quad_trust_region a q (map2 (\<lambda>a b. 2 * a * b) (map2 (\<lambda>a b. a * b) c c) q) (map2 (\<lambda>a b. a * b) c c) ((rho E)\<^sup>2)) 0
      (\<lambda>a. quad_trust_region_deriv a q (map2 (\<lambda>a b. 2 * a * b) (map2 (\<lambda>a b. a * b) c c) q) (map2 (\<lambda>a b. a * b) c c) ((rho E)\<^sup>2)) 50"
  from assms(1) False obtain alpha where found: "found = Some alpha"
    by (cases found) (auto simp: coordinate_step_def Let_def c_def q_def found_def split: if_splits)
  have "y s' = map (\<lambda>k. (y s ! k)[m := alpha * c ! k / (1 + alpha * q ! k)]) [0..<n_tasks E]"
    using assms(1) False found
    by (auto simp: coordinate_step_def Let_def c_def q_def found_def split: if_splits)
  also have "\<dots> = map (\<lambda>k. (y s ! k)[m := map (\<lambda>k. alpha * c ! k / (1 + alpha * q ! k)) [0..<n_tasks E] ! k]) [0..<n_tasks E]"
    by (intro nth_equalityI) simp_all
  finally show ?thesis
    using that[of "map (\<lambda>k. alpha * c ! k / (1 + alpha * q ! k)) [0..<n_tasks E]"] by simp
qed

lemma coordinate_step_shape:
  assumes "coordinate_step L E p m s = Inr s'" "vectors_shape E (y s)"
  shows "vectors_shape E (y s')"
proof -
  from assms obtain xs where "y s' = map (\<lambda>k. (y s ! k)[m := xs ! k]) [0..<n_tasks E]"
    by (rule coordinate_step_y)
  then show ?thesis
    using assms(2) by (simp add: vectors_shape_def list_all_length)
qed

lemma coordinate_step_other:
  assumes "coordinate_step L E p m' s = Inr s'" "vectors_shape E (y s)" "m' \<noteq> m" "k < n_tasks E"
  shows "y s' ! k ! m = y s ! k ! m"
proof -
  from assms(1,2) obtain xs where "y s' = map (\<lambda>k. (y s ! k)[m' := xs ! k]) [0..<n_tasks E]"
    by (rule coordinate_step_y)
  then show ?thesis using assms(3,4) by simp
qed

lemma coordinate_descent_shape:
  "coordinate_descent L E p ms s = Inr s' \<Longrightarrow> vectors_shape E (y s) \<Longrightarrow> vectors_shape E (y s')"
proof (induction ms arbitrary: s)
  case Nil
  then show ?case by simp
next
  case (Cons m ms)
  then obtain s1 where 1: "coordinate_step L E p m s = Inr s1"
    and 2: "coordinate_descent L E p ms s1 = Inr s'"
    by (auto split: sum.splits)
  from Cons.IH[OF 2 coordinate_step_shape[OF 1 Cons.prems(2)]] show ?case .
qed

lemma coordinate_descent_other:
  "coordinate_descent L E p ms s = Inr s' \<Longrightarrow> vectors_shape E (y s) \<Longrightarrow> m \<notin> set ms \<Longrightarrow>
     k < n_tasks E \<Longrightarrow> y s' ! k ! m = y s ! k ! m"
proof (induction ms arbitrary: s)
  case Nil
  then show ?case by simp
next
  case (Cons m' ms)
  then obtain s1 where 1: "coordinate_step L E p m' s = Inr s1"
    and 2: "coordinate_descent L E p ms s1 = Inr s'"
    by (auto split: sum.splits)
  have "y s' ! k ! m = y s1 ! k ! m"
    using Cons.prems by (intro Cons.IH[OF 2 coordinate_step_shape[OF 1]]) simp_all
  also have "\<dots> = y s ! k ! m"
    using Cons.prems by (intro coordinate_step_other[OF 1]) auto
  finally show ?case .
qed

lemma coordinate_descent_append:
  "coordinate_descent L E p (ms @ ns) s =
     (case coordinate_descent L E p ms s of Inl e \<Rightarrow> Inl e | Inr s' \<Rightarrow> coordinate_descent L E p ns s')"
  by (induction ms arbitrary: s) (auto split: sum.splits)

lemma write_back_entries:
  assumes "p < n" "i < n" "i \<noteq> p"
  shows "write_back n p yk M ! i ! p = yk ! (if i < p then i else i - 1)"
    and "write_back n p yk M ! p ! i = yk ! (if i < p then i else i - 1)"
  using assms by (auto simp: write_back_def)

lemma write_back_row:
  assumes "p < n" "length yk = n - 1"
  shows "delete_at p ((write_back n p yk M ! p)[p := x]) = yk"
proof (rule nth_equalityI)
  show l: "length (delete_at p ((write_back n p yk M ! p)[p := x])) = length yk"
    using assms by (simp add: length_delete_at write_back_def)
  fix j assume "j < length (delete_at p ((write_back n p yk M ! p)[p := x]))"
  then have j: "j < n - 1" using l assms by simp
  then show "delete_at p ((write_back n p yk M ! p)[p := x]) ! j = yk ! j"
    using assms by (auto simp: delete_at_nth write_back_def)
qed

lemma write_back_col:
  assumes "p < n" "length yk = n - 1"
  shows "delete_at p (col (set_entry (write_back n p yk M) p p x) p) = yk"
proof (rule nth_equalityI)
  show l: "length (delete_at p (col (set_entry (write_back n p yk M) p p x) p)) = length yk"
    using assms by (simp add: length_delete_at)
  fix j assume "j < length (delete_at p (col (set_entry (write_back n p yk M) p p x) p))"
  then have j: "j < n - 1" using l assms by simp
  have sq: "is_square n (write_back n p yk M)" by simp
  define i where "i = (if j < p then j else Suc j)"
  have i: "i < n" "i \<noteq> p" using j assms by (auto simp: i_def)
  have "delete_at p (col (set_entry (write_back n p yk M) p p x) p) ! j
      = set_entry (write_back n p yk M) p p x ! i ! p"
    using assms j i by (simp add: delete_at_nth i_def)
  also have "\<dots> = write_back n p yk M ! i ! p"
    using assms i by (simp add: set_entry_nth[OF sq])
  also have "\<dots> = yk ! j"
    using assms i by (simp add: write_back_entries) (simp add: i_def)
  finally show "delete_at p (col (set_entry (write_back n p yk M) p p x) p) ! j = yk ! j" .
qed

section \<open>The threshold test without the square root\<close>

text \<open>The test \<^verbatim>\<open>c2 <= rho\<close> compares a square root; for evaluation it is put as a comparison of squares.\<close>

lemma dot_self_nonneg: "0 \<le> dot xs xs"
  unfolding dot_def by (induction xs) simp_all

lemma sqrt_dot_le_iff: "sqrt (dot xs xs) \<le> r \<longleftrightarrow> 0 \<le> r \<and> dot xs xs \<le> r\<^sup>2"
proof (cases "0 \<le> r")
  case True
  then show ?thesis
    using dot_self_nonneg[of xs] by (metis real_sqrt_le_iff real_sqrt_abs abs_of_nonneg)
next
  case False
  have "0 \<le> sqrt (dot xs xs)" using dot_self_nonneg[of xs] by simp
  with False have "\<not> sqrt (dot xs xs) \<le> r" by linarith
  with False show ?thesis by simp
qed

lemma coordinate_step_code [code]:
  "coordinate_step L E p m s =
     (let c = c_vector E p m s
      in if 0 \<le> rho E \<and> dot c c \<le> (rho E)\<^sup>2 then Inr (s\<lparr>y := map (\<lambda>yk. yk[m := 0]) (y s)\<rparr>)
         else
           let q = map (\<lambda>k. n_samples E ! k * emp_covs s ! k ! p ! p * (Winv s ! k ! m ! m))
                     [0..<n_tasks E]
           in if debug E \<and> \<not> list_all (\<lambda>x. 0 < x) q then Inl AssertionError
              else
                let cc = map2 (\<lambda>a b. a * b) c c;
                    two_ccq = map2 (\<lambda>a b. 2 * a * b) cc q
                in case newton L (\<lambda>a. quad_trust_region a q two_ccq cc ((rho E)\<^sup>2)) 0
                          (\<lambda>a. quad_trust_region_deriv a q two_ccq cc ((rho E)\<^sup>2)) 50 of
                     None \<Rightarrow> Inl RuntimeError
                   | Some alpha \<Rightarrow>
                       let remainder = quad_trust_region alpha q two_ccq cc ((rho E)\<^sup>2);
                           warned = (if \<bar>remainder\<bar> > 1 / 10
                                     then warnings s @ [''Newton-Raphson step did not converge.'']
                                     else warnings s)
                       in if debug E \<and> \<not> 0 \<le> alpha then Inl AssertionError
                          else Inr (s\<lparr>y := map (\<lambda>k. (y s ! k)[m := alpha * c ! k / (1 + alpha * q ! k)])
                                             [0..<n_tasks E],
                                      warnings := warned\<rparr>))"
  unfolding coordinate_step_def Let_def sqrt_dot_le_iff ..

section \<open>The driver\<close>

lemma n_var_solver_env_of [simp]: "n_var (solver_env_of sigs r c d) = shape1 (sigs ! 0)"
  and n_tasks_solver_env_of [simp]: "n_tasks (solver_env_of sigs r c d) = length sigs"
  and debug_solver_env_of [simp]: "debug (solver_env_of sigs r c d) = d"
  and return_costs_solver_env_of [simp]: "return_costs (solver_env_of sigs r c d) = c"
  and rho_solver_env_of [simp]: "rho (solver_env_of sigs r c d) = number_of r"
  by (simp_all add: solver_env_of_def Let_def)

lemma length_construct_emp_covs [simp]: "length (construct_emp_covs L n c sigs) = length sigs"
  by (simp add: construct_emp_covs_def)

lemma construct_emp_covs_nth:
  "k < length sigs \<Longrightarrow>
     construct_emp_covs L n c sigs ! k = symmetrize (mat n n (empirical_covariance L (sigs ! k) c))"
  by (simp add: construct_emp_covs_def)

lemma initial_state_fields [simp]:
  "emp_covs (initial_state E emp) = emp" "costs (initial_state E emp) = []"
  "warnings (initial_state E emp) = []"
  by (simp_all add: initial_state_def)

lemma group_sparse_covariance_Inr:
  assumes "group_sparse_covariance L signals rho_arg n_iter c rc dbg = Inr (emp, om, cs)"
  obtains sigs s where
    "signals = Iterable sigs" "sigs \<noteq> []"
    "sweep_loop L (solver_env_of sigs rho_arg rc dbg) (nat n_iter)
       (initial_state (solver_env_of sigs rho_arg rc dbg)
          (construct_emp_covs L (shape1 (sigs ! 0)) c sigs)) = Inr s"
    "emp = emp_covs s" "om = omega s" "cs = (if rc then Some (costs s) else None)"
  using assms
  by (auto simp: group_sparse_covariance_def Let_def
      split: if_splits signals_arg.splits sum.splits)

lemma sweep_loop_emp_covs: "sweep_loop L E n s = Inr s' \<Longrightarrow> emp_covs s' = emp_covs s"
  by (simp add: sweep_loop_pivot_loop pivot_loop_emp_covs)

lemma pivot_update_costs:
  assumes "pivot_update L E p s = Inr s'"
  shows "length (costs s') = (if return_costs E then Suc (length (costs s)) else length (costs s))"
proof -
  from assms obtain s1 s2 s3 where
    1: "update_submatrices L E p s = Inr s1"
    and 2: "coordinate_descent L E p [0..<n_var E - 1] (extract_vectors p s1) = Inr s2"
    and 3: "set_diagonal L E p (copy_back E p s2) = Inr s3"
    and 4: "s' = record_cost L E s3"
    by (rule pivot_update_stages)
  have "costs s3 = costs s2" using set_diagonal_Inr[OF 3] by simp
  with update_submatrices_frame(3)[OF 1] coordinate_descent_frame[OF 2] 4
  show ?thesis by simp
qed

lemma pivot_loop_costs:
  "pivot_loop L E ps s = Inr s' \<Longrightarrow>
     length (costs s') = length (costs s) + (if return_costs E then length ps else 0)"
proof (induction ps arbitrary: s)
  case Nil
  then show ?case by simp
next
  case (Cons p ps)
  then obtain s1 where 1: "pivot_update L E p s = Inr s1" and 2: "pivot_loop L E ps s1 = Inr s'"
    by (auto split: sum.splits)
  from Cons.IH[OF 2] pivot_update_costs[OF 1] show ?case by simp
qed

lemma length_concat_replicate: "length (concat (replicate n xs)) = n * length xs"
  by (induction n) simp_all

lemma remdups_differ:
  "1 < length (remdups xs) \<longleftrightarrow> (\<exists>i<length xs. \<exists>j<length xs. xs ! i \<noteq> xs ! j)"
proof -
  have "1 < length (remdups xs) \<longleftrightarrow> 1 < card (set xs)"
    by (simp add: length_remdups_card_conv)
  also have "\<dots> \<longleftrightarrow> (\<exists>a\<in>set xs. \<exists>b\<in>set xs. a \<noteq> b)"
  proof
    assume c: "1 < card (set xs)"
    show "\<exists>a\<in>set xs. \<exists>b\<in>set xs. a \<noteq> b"
    proof (rule ccontr)
      assume "\<not> (\<exists>a\<in>set xs. \<exists>b\<in>set xs. a \<noteq> b)"
      then have eq: "\<And>a b. a \<in> set xs \<Longrightarrow> b \<in> set xs \<Longrightarrow> a = b" by blast
      show False
      proof (cases xs)
        case Nil
        with c show False by simp
      next
        case (Cons x ys)
        then have "set xs \<subseteq> {x}" using eq by auto
        then have "card (set xs) \<le> card {x}" by (intro card_mono) simp_all
        with c show False by simp
      qed
    qed
  next
    assume "\<exists>a\<in>set xs. \<exists>b\<in>set xs. a \<noteq> b"
    then obtain a b where ab: "a \<in> set xs" "b \<in> set xs" "a \<noteq> b" by blast
    then have "card {a, b} \<le> card (set xs)" by (intro card_mono) simp_all
    with ab show "1 < card (set xs)" by simp
  qed
  also have "\<dots> \<longleftrightarrow> (\<exists>i<length xs. \<exists>j<length xs. xs ! i \<noteq> xs ! j)"
    by (metis in_set_conv_nth)
  finally show ?thesis .
qed

lemma sweep_loop_error:
  "sweep_loop L E n s = Inl e \<Longrightarrow>
     e = AssertionError \<and> debug E
     \<or> e = RuntimeError \<and> (\<exists>f g. newton L f 0 g 50 = None)"
  by (simp add: sweep_loop_pivot_loop pivot_loop_error)

lemma group_sparse_covariance_validated:
  assumes "isinstance_int_float rho_arg" "0 \<le> number_of rho_arg"
    and "\<not> 1 < length (remdups (map shape1 tasks))" "tasks \<noteq> []"
  shows "group_sparse_covariance L (Iterable tasks) rho_arg n_iter c rc dbg =
      (if dbg \<and> \<not> list_all (\<lambda>M. is_spd L M None) (construct_emp_covs L (shape1 (tasks ! 0)) c tasks)
       then Inl AssertionError
       else if shape1 (tasks ! 0) < 2 then Inl (ValueError negative_dimensions)
       else (case sweep_loop L (solver_env_of tasks rho_arg rc dbg) (nat n_iter)
                    (initial_state (solver_env_of tasks rho_arg rc dbg)
                       (construct_emp_covs L (shape1 (tasks ! 0)) c tasks)) of
               Inl e \<Rightarrow> Inl e
             | Inr s \<Rightarrow> Inr (emp_covs s, omega s, if rc then Some (costs s) else None)))"
  using assms
  by (simp add: group_sparse_covariance_def Let_def not_less del: remdups.simps cong: sum.case_cong)

lemma validated_errors:
  assumes ok: "isinstance_int_float rho_arg" "0 \<le> number_of rho_arg"
    and r: "\<not> 1 < length (remdups (map shape1 tasks))"
    and e: "group_sparse_covariance L (Iterable tasks) rho_arg n_iter c rc dbg = Inl e"
  shows "e = IndexError \<or> e = AssertionError \<or> e = ValueError negative_dimensions
    \<or> e = RuntimeError"
proof (cases "tasks = []")
  case True
  with ok r e show ?thesis by (simp add: group_sparse_covariance_def)
next
  case False
  note g = group_sparse_covariance_validated[OF ok r False, of L n_iter c rc dbg]
  show ?thesis
  proof (cases "sweep_loop L (solver_env_of tasks rho_arg rc dbg) (nat n_iter)
                    (initial_state (solver_env_of tasks rho_arg rc dbg)
                       (construct_emp_covs L (shape1 (tasks ! 0)) c tasks))")
    case (Inl x)
    from sweep_loop_error[OF Inl] have "x = AssertionError \<or> x = RuntimeError" by blast
    with e g Inl show ?thesis by (auto split: if_splits)
  next
    case (Inr x)
    with e g show ?thesis by (simp split: if_splits)
  qed
qed

section \<open>A run on two tasks\<close>

lemma pivot_update_no_cost:
  "\<not> return_costs E \<Longrightarrow>
     pivot_update L E p s =
       (case update_submatrices L E p s of
          Inl e \<Rightarrow> Inl e
        | Inr s1 \<Rightarrow>
            (case coordinate_descent L E p [0..<n_var E - 1] (extract_vectors p s1) of
               Inl e \<Rightarrow> Inl e
             | Inr s2 \<Rightarrow> set_diagonal L E p (copy_back E p s2)))"
  by (simp add: pivot_update_def record_cost_def split: sum.splits)

lemma example_env_fields:
  "n_tasks example_env = 2" "n_var example_env = 2" "rho example_env = 0"
  "\<not> return_costs example_env" "\<not> debug example_env"
  by (simp_all add: example_env_def task_a_def number_of_def)

lemma example_pivot_0:
  "pivot_update example_libs example_env 0 example_start = Inr example_after_0"
  unfolding pivot_update_no_cost[OF example_env_fields(4)] by code_simp

lemma example_pivot_1:
  "pivot_update example_libs example_env 1 example_after_0 = Inr example_after_1"
  unfolding pivot_update_no_cost[OF example_env_fields(4)] by code_simp

lemma example_pivot_loop:
  "pivot_loop example_libs example_env [0, 1] example_start = Inr example_after_1"
  using example_pivot_0 example_pivot_1 by simp

lemma example_sweep:
  "sweep_loop example_libs example_env 1 example_start = Inr example_after_1"
proof -
  have "[0..<n_var example_env] = [0, 1]"
    by (simp add: example_env_fields upt_conv_Cons)
  then show ?thesis
    using example_pivot_loop by (simp add: sweep_loop_pivot_loop)
qed

lemma example_run:
  "group_sparse_covariance example_libs (Iterable [task_a, task_b]) (PyInt 0) 1 True False False
     = Inr (emp_covs example_after_1, omega example_after_1, None)"
proof -
  have 1: "\<not> length (remdups (map shape1 [task_a, task_b])) > 1"
    by (simp add: task_a_def task_b_def)
  have 2: "solver_env_of [task_a, task_b] (PyInt 0) False False = example_env"
    by (simp add: example_env_def)
  have 3: "initial_state example_env (construct_emp_covs example_libs 2 True [task_a, task_b])
      = example_start"
    by (simp add: example_start_def)
  have 4: "sweep_loop example_libs example_env (nat 1) example_start = Inr example_after_1"
    using example_sweep by simp
  show ?thesis
    unfolding group_sparse_covariance_def
    using 1 by (simp add: Let_def 2 3 4 example_env_fields isinstance_int_float_def number_of_def
        del: remdups.simps One_nat_def nat_1)
qed

section \<open>The call of the root-finder\<close>

text \<open>
  What a coordinate step does when the threshold test fails, in terms of the result of
  \<^verbatim>\<open>scipy.optimize.newton\<close>: the exception of the root-finder ends the step, a returned
  \<open>alpha\<close> is used whatever the residual, with a warning when the residual is large.
\<close>

lemma coordinate_step_newton:
  assumes "c = c_vector E p m s" "\<not> sqrt (dot c c) \<le> rho E"
    and "q = map (\<lambda>k. n_samples E ! k * emp_covs s ! k ! p ! p * (Winv s ! k ! m ! m)) [0..<n_tasks E]"
    and "cc = map2 (\<lambda>a b. a * b) c c" "two_ccq = map2 (\<lambda>a b. 2 * a * b) cc q"
  shows "coordinate_step L E p m s =
     (if debug E \<and> \<not> list_all (\<lambda>x. 0 < x) q then Inl AssertionError
      else case newton L (\<lambda>a. quad_trust_region a q two_ccq cc ((rho E)\<^sup>2)) 0
                  (\<lambda>a. quad_trust_region_deriv a q two_ccq cc ((rho E)\<^sup>2)) 50 of
             None \<Rightarrow> Inl RuntimeError
           | Some alpha \<Rightarrow>
               if debug E \<and> \<not> 0 \<le> alpha then Inl AssertionError
               else Inr (s\<lparr>y := map (\<lambda>k. (y s ! k)[m := alpha * c ! k / (1 + alpha * q ! k)])
                                  [0..<n_tasks E],
                           warnings := (if \<bar>quad_trust_region alpha q two_ccq cc ((rho E)\<^sup>2)\<bar> > 1 / 10
                                        then warnings s @ [''Newton-Raphson step did not converge.'']
                                        else warnings s)\<rparr>))"
  using assms(2) unfolding assms(1,3,4,5) coordinate_step_def Let_def by simp

lemma coordinate_step_raises:
  assumes "c = c_vector E p m s" "\<not> sqrt (dot c c) \<le> rho E"
    and "q = map (\<lambda>k. n_samples E ! k * emp_covs s ! k ! p ! p * (Winv s ! k ! m ! m)) [0..<n_tasks E]"
    and "cc = map2 (\<lambda>a b. a * b) c c" "two_ccq = map2 (\<lambda>a b. 2 * a * b) cc q"
    and "debug E \<longrightarrow> list_all (\<lambda>x. 0 < x) q"
    and "newton L (\<lambda>a. quad_trust_region a q two_ccq cc ((rho E)\<^sup>2)) 0
           (\<lambda>a. quad_trust_region_deriv a q two_ccq cc ((rho E)\<^sup>2)) 50 = None"
  shows "coordinate_step L E p m s = Inl RuntimeError"
  unfolding coordinate_step_newton[OF assms(1-5)] using assms(6,7) by auto

lemma coordinate_step_returns:
  assumes "c = c_vector E p m s" "\<not> sqrt (dot c c) \<le> rho E"
    and "q = map (\<lambda>k. n_samples E ! k * emp_covs s ! k ! p ! p * (Winv s ! k ! m ! m)) [0..<n_tasks E]"
    and "cc = map2 (\<lambda>a b. a * b) c c" "two_ccq = map2 (\<lambda>a b. 2 * a * b) cc q"
    and "debug E \<longrightarrow> list_all (\<lambda>x. 0 < x) q \<and> 0 \<le> alpha"
    and "newton L (\<lambda>a. quad_trust_region a q two_ccq cc ((rho E)\<^sup>2)) 0
           (\<lambda>a. quad_trust_region_deriv a q two_ccq cc ((rho E)\<^sup>2)) 50 = Some alpha"
  shows "coordinate_step L E p m s =
     Inr (s\<lparr>y := map (\<lambda>k. (y s ! k)[m := alpha * c ! k / (1 + alpha * q ! k)]) [0..<n_tasks E],
            warnings := (if \<bar>quad_trust_region alpha q two_ccq cc ((rho E)\<^sup>2)\<bar> > 1 / 10
                         then warnings s @ [''Newton-Raphson step did not converge.'']
                         else warnings s)\<rparr>)"
  unfolding coordinate_step_newton[OF assms(1-5)] using assms(6,7) by auto

text \<open>
  The Newton iteration does not stop when each step from a non-negative iterate \<open>p\<close>
  leads to \<open>1 + 3 p / 2\<close>: every step is at least \<open>1\<close> long.
\<close>

lemma newton_raphson_None:
  assumes "\<And>p. 0 \<le> p \<Longrightarrow> f' p \<noteq> 0 \<and> p - f p / f' p = 1 + 3 * p / 2" "0 \<le> p0" "tol \<le> 1"
  shows "newton_raphson f f' tol n p0 = None"
  using assms(2)
proof (induction n arbitrary: p0)
  case 0
  show ?case by simp
next
  case (Suc n)
  from assms(1)[OF Suc.prems] have 1: "f' p0 \<noteq> 0" and 2: "p0 - f p0 / f' p0 = 1 + 3 * p0 / 2"
    by simp_all
  have 3: "\<not> \<bar>(1 + 3 * p0 / 2) - p0\<bar> < tol" using Suc.prems assms(3) by simp
  have 4: "0 \<le> 1 + 3 * p0 / 2" using Suc.prems by simp
  show ?case using 1 3 Suc.IH[OF 4] by (simp add: 2 Let_def)
qed

text \<open>
  The two tasks with \<^verbatim>\<open>rho = 0\<close>: at pivot \<open>0\<close>, coordinate \<open>0\<close>, the equation is
  \<open>0 = (1/4) / (1 + alpha / 2)\<^sup>2\<close>, which has no root; Newton's step from \<open>alpha\<close> leads to
  \<open>1 + 3 alpha / 2\<close>, the fifty iterations are used up and the call raises.
\<close>

lemma scipy_newton_raises:
  "scipy_newton (\<lambda>a. quad_trust_region a [1 / 4, 1 / 2] [0, 1 / 4] [0, 1 / 4] 0) 0
     (\<lambda>a. quad_trust_region_deriv a [1 / 4, 1 / 2] [0, 1 / 4] [0, 1 / 4] 0) 50 = None"
  unfolding scipy_newton_def
proof (rule newton_raphson_None)
  fix p :: real assume p: "0 \<le> p"
  define t where "t = 1 + p / 2"
  have t: "t \<noteq> 0" "p = 2 * t - 2" using p by (simp_all add: t_def)
  have f: "quad_trust_region p [1 / 4, 1 / 2] [0, 1 / 4] [0, 1 / 4] 0 = - (1 / 4) / (t * t)"
    by (simp add: quad_trust_region_def t_def power2_eq_square)
  have g: "quad_trust_region_deriv p [1 / 4, 1 / 2] [0, 1 / 4] [0, 1 / 4] 0 = (1 / 4) / (t * t * t)"
    by (simp add: quad_trust_region_deriv_def t_def power3_eq_cube)
  have q: "(- (1 / 4) / (t * t)) / ((1 / 4) / (t * t * t)) = - t" using t(1) by simp
  have nz: "(1 / 4) / (t * t * t) \<noteq> 0" using t(1) by simp
  show "quad_trust_region_deriv p [1 / 4, 1 / 2] [0, 1 / 4] [0, 1 / 4] 0 \<noteq> 0 \<and>
         p - quad_trust_region p [1 / 4, 1 / 2] [0, 1 / 4] [0, 1 / 4] 0 /
             quad_trust_region_deriv p [1 / 4, 1 / 2] [0, 1 / 4] [0, 1 / 4] 0 =
         1 + 3 * p / 2"
    unfolding f g q using nz by (simp add: t_def)
qed simp_all

lemma scipy_submatrices:
  "update_submatrices scipy_libs example_env 0 scipy_start = Inr example_submatrices"
  by code_simp

lemma scipy_c_vector:
  "c_vector example_env 0 0 (extract_vectors 0 example_submatrices) = [0, - (1 / 2)]"
  by code_simp

lemma scipy_q:
  "map (\<lambda>k. n_samples example_env ! k * emp_covs (extract_vectors 0 example_submatrices) ! k ! 0 ! 0
              * (Winv (extract_vectors 0 example_submatrices) ! k ! 0 ! 0)) [0..<n_tasks example_env]
     = [1 / 4, 1 / 2]"
  by code_simp

lemma scipy_step:
  "coordinate_step scipy_libs example_env 0 0 (extract_vectors 0 example_submatrices)
     = Inl RuntimeError"
proof -
  have 1: "\<not> sqrt (dot [0, - (1 / 2)] [0, - (1 / 2)]) \<le> rho example_env"
    unfolding sqrt_dot_le_iff by (simp add: example_env_fields dot_def)
  have 2: "newton scipy_libs = scipy_newton" by (simp add: scipy_libs_def)
  have 3: "[0, 1 / 4] = map2 (\<lambda>a b. a * b) [0, - (1 / 2)] [0, - (1 / 2 :: real)]" by simp
  have 4: "[0, 1 / 4] = map2 (\<lambda>a b. 2 * a * b) [0, 1 / 4] [1 / 4, 1 / 2 :: real]" by simp
  note step = coordinate_step_newton[where L = scipy_libs,
      OF scipy_c_vector[symmetric] 1 scipy_q[symmetric] 3 4]
  show ?thesis
    unfolding step by (simp add: example_env_fields 2 scipy_newton_raises)
qed

lemma scipy_pivot_0:
  "pivot_update scipy_libs example_env 0 scipy_start = Inl RuntimeError"
proof -
  have "[0..<n_var example_env - 1] = [0]" by (simp add: example_env_fields)
  then show ?thesis
    unfolding pivot_update_no_cost[OF example_env_fields(4)]
    by (simp add: scipy_submatrices scipy_step)
qed

lemma scipy_run:
  "group_sparse_covariance scipy_libs (Iterable [task_a, task_b]) (PyInt 0) 1 True False False
     = Inl RuntimeError"
proof -
  have 1: "\<not> length (remdups (map shape1 [task_a, task_b])) > 1"
    by (simp add: task_a_def task_b_def)
  have 2: "solver_env_of [task_a, task_b] (PyInt 0) False False = example_env"
    by (simp add: example_env_def)
  have 3: "initial_state example_env (construct_emp_covs scipy_libs 2 True [task_a, task_b])
      = scipy_start"
    by (simp add: scipy_start_def)
  have "[0..<n_var example_env] = [0, 1]"
    by (simp add: example_env_fields upt_conv_Cons)
  then have 4: "sweep_loop scipy_libs example_env (nat 1) scipy_start = Inl RuntimeError"
    using scipy_pivot_0 by (simp add: sweep_loop_pivot_loop)
  show ?thesis
    unfolding group_sparse_covariance_def
    using 1 by (simp add: Let_def 2 3 4 example_env_fields isinstance_int_float_def number_of_def
        del: remdups.simps One_nat_def nat_1)
qed

section \<open>The empirical covariances\<close>

text \<open>
  Claim C9. The empirical covariances are written during construction only: no pivot
  update and no sweep changes \<open>emp_covs\<close>, and what \<^verbatim>\<open>group_sparse_covariance\<close> returns as
  \<open>emp_covs\<close> is the value construction (estimation, then symmetrization) gave it.
\<close>

theorem emp_covs_read_only:
  "(pivot_update L E p s = Inr s' \<longrightarrow> emp_covs s' = emp_covs s)
   \<and> (sweep_loop L E n s = Inr s'' \<longrightarrow> emp_covs s'' = emp_covs s)
   \<and> (group_sparse_covariance L (Iterable sigs) rho_arg n_iter c rc dbg = Inr (emp, om, cs)
        \<longrightarrow> emp = construct_emp_covs L (shape1 (sigs ! 0)) c sigs)"
proof (intro conjI impI)
  assume "pivot_update L E p s = Inr s'"
  then show "emp_covs s' = emp_covs s" by (rule pivot_update_emp_covs)
next
  assume "sweep_loop L E n s = Inr s''"
  then show "emp_covs s'' = emp_covs s" by (rule sweep_loop_emp_covs)
next
  assume "group_sparse_covariance L (Iterable sigs) rho_arg n_iter c rc dbg = Inr (emp, om, cs)"
  then show "emp = construct_emp_covs L (shape1 (sigs ! 0)) c sigs"
    by (elim group_sparse_covariance_Inr) (auto dest: sweep_loop_emp_covs)
qed

theorem emp_covs_read_only_witness:
  "pivot_update example_libs example_env 1 example_after_0 = Inr example_after_1
   \<and> emp_covs example_after_1 = emp_covs example_after_0
   \<and> sweep_loop example_libs example_env 1 example_start = Inr example_after_1
   \<and> emp_covs example_after_1 = emp_covs example_start
   \<and> group_sparse_covariance example_libs (Iterable [task_a, task_b]) (PyInt 0) 1 True False False
       = Inr (emp_covs example_after_1, omega example_after_1, None)
   \<and> emp_covs example_after_1
       = construct_emp_covs example_libs (shape1 ([task_a, task_b] ! 0)) True [task_a, task_b]"
proof -
  have "emp_covs example_after_1 = emp_covs example_after_0"
    using emp_covs_read_only[where L = example_libs and E = example_env and p = 1
        and s = example_after_0 and s' = example_after_1] example_pivot_1
    by blast
  moreover have "emp_covs example_after_1 = emp_covs example_start"
    using emp_covs_read_only[where L = example_libs and E = example_env and n = 1
        and s = example_start and s'' = example_after_1] example_sweep
    by blast
  moreover have "emp_covs example_after_1
       = construct_emp_covs example_libs (shape1 ([task_a, task_b] ! 0)) True [task_a, task_b]"
    using emp_covs_read_only[where L = example_libs and sigs = "[task_a, task_b]"
        and rho_arg = "PyInt 0" and n_iter = 1 and c = True and rc = False and dbg = False
        and emp = "emp_covs example_after_1" and om = "omega example_after_1" and cs = None]
      example_run
    by blast
  ultimately show ?thesis
    using example_pivot_1 example_sweep example_run by blast
qed

lemma construct_emp_covs_entry:
  assumes "k < length sigs"
  shows "construct_emp_covs L n c sigs ! k
     = mat n n (\<lambda>i j. (empirical_covariance L (sigs ! k) c i j
                        + empirical_covariance L (sigs ! k) c j i) / 2)"
proof -
  have "symmetrize (mat n n (empirical_covariance L (sigs ! k) c))
      = mat n n (\<lambda>i j. (mat n n (empirical_covariance L (sigs ! k) c) ! i ! j
                        + mat n n (empirical_covariance L (sigs ! k) c) ! j ! i) / 2)"
    by (rule symmetrize_square) simp
  also have "\<dots> = mat n n (\<lambda>i j. (empirical_covariance L (sigs ! k) c i j
                        + empirical_covariance L (sigs ! k) c j i) / 2)"
    by (rule mat_cong) simp
  finally show ?thesis using assms by (simp add: construct_emp_covs_nth)
qed

lemma construct_emp_covs_symmetric:
  "list_all is_symmetric (construct_emp_covs L n c sigs)"
  by (simp add: list_all_length construct_emp_covs_nth symmetrize_symmetric[where n = n])

text \<open>
  Claim C6. For every task the stored empirical covariance is \<open>(C + C\<^sup>T) / 2\<close>, where \<open>C\<close>
  is what the covariance estimator returned for the task, so it is exactly symmetric;
  and the empirical covariances \<^verbatim>\<open>group_sparse_covariance\<close> returns are symmetric.
\<close>

theorem empirical_covariances_symmetrized:
  "(k < length sigs \<longrightarrow>
      construct_emp_covs L n c sigs ! k
        = mat n n (\<lambda>i j. (empirical_covariance L (sigs ! k) c i j
                           + empirical_covariance L (sigs ! k) c j i) / 2)
      \<and> is_symmetric (construct_emp_covs L n c sigs ! k))
   \<and> (group_sparse_covariance L signals rho_arg n_iter c rc dbg = Inr (emp, om, cs)
        \<longrightarrow> list_all is_symmetric emp)"
proof (intro conjI impI)
  assume k: "k < length sigs"
  show "construct_emp_covs L n c sigs ! k
        = mat n n (\<lambda>i j. (empirical_covariance L (sigs ! k) c i j
                           + empirical_covariance L (sigs ! k) c j i) / 2)"
    using k by (rule construct_emp_covs_entry)
  show "is_symmetric (construct_emp_covs L n c sigs ! k)"
    using k construct_emp_covs_symmetric[of L n c sigs] by (simp add: list_all_length)
next
  assume "group_sparse_covariance L signals rho_arg n_iter c rc dbg = Inr (emp, om, cs)"
  then obtain sigs' where "emp = construct_emp_covs L (shape1 (sigs' ! 0)) c sigs'"
    by (elim group_sparse_covariance_Inr) (auto dest: sweep_loop_emp_covs)
  then show "list_all is_symmetric emp" by (simp add: construct_emp_covs_symmetric)
qed

theorem empirical_covariances_symmetrized_witness:
  "1 < length [task_a, task_b]
   \<and> construct_emp_covs example_libs 2 True [task_a, task_b] ! 1
       = mat 2 2 (\<lambda>i j. (empirical_covariance example_libs ([task_a, task_b] ! 1) True i j
                          + empirical_covariance example_libs ([task_a, task_b] ! 1) True j i) / 2)
   \<and> is_symmetric (construct_emp_covs example_libs 2 True [task_a, task_b] ! 1)
   \<and> group_sparse_covariance example_libs (Iterable [task_a, task_b]) (PyInt 0) 1 True False False
       = Inr (emp_covs example_after_1, omega example_after_1, None)
   \<and> list_all is_symmetric (emp_covs example_after_1)"
proof -
  have k: "1 < length [task_a, task_b]" by simp
  from empirical_covariances_symmetrized[where k = 1 and sigs = "[task_a, task_b]"
      and L = example_libs and n = 2 and c = True and signals = "Iterable [task_a, task_b]"
      and rho_arg = "PyInt 0" and n_iter = 1 and rc = False and dbg = False
      and emp = "emp_covs example_after_1" and om = "omega example_after_1" and cs = None]
    k example_run
  show ?thesis by blast
qed

section \<open>Validation of the arguments\<close>

text \<open>
  Claim C5. \<^verbatim>\<open>group_sparse_covariance\<close> raises its \<^verbatim>\<open>ValueError\<close> for \<open>rho\<close> when \<open>rho\<close> is
  not an \<^verbatim>\<open>int\<close> or \<^verbatim>\<open>float\<close> or is negative; for \<open>signals\<close> when, \<open>rho\<close> being accepted, the
  collection of tasks is not iterable; for the number of features when, both being
  accepted, two tasks differ in their number of columns. Each is the result whatever
  the library functions compute, that is, before any of them is called. An input that
  passes the three checks raises none of the three.
\<close>

theorem validation_errors:
  "(\<not> isinstance_int_float rho_arg \<or> number_of rho_arg < 0 \<longrightarrow>
      group_sparse_covariance L signals rho_arg n_iter c rc dbg = Inl (ValueError rho_not_positive))
   \<and> (isinstance_int_float rho_arg \<and> 0 \<le> number_of rho_arg \<longrightarrow>
        group_sparse_covariance L NotIterable rho_arg n_iter c rc dbg
          = Inl (ValueError signals_not_iterable))
   \<and> (isinstance_int_float rho_arg \<and> 0 \<le> number_of rho_arg
        \<and> i < length sigs \<and> j < length sigs \<and> shape1 (sigs ! i) \<noteq> shape1 (sigs ! j) \<longrightarrow>
        group_sparse_covariance L (Iterable sigs) rho_arg n_iter c rc dbg
          = Inl (ValueError features_differ))
   \<and> (isinstance_int_float rho_arg \<and> 0 \<le> number_of rho_arg
        \<and> (\<forall>i<length tasks. \<forall>j<length tasks. shape1 (tasks ! i) = shape1 (tasks ! j)) \<longrightarrow>
        group_sparse_covariance L (Iterable tasks) rho_arg n_iter c rc dbg
          \<notin> {Inl (ValueError rho_not_positive), Inl (ValueError signals_not_iterable),
              Inl (ValueError features_differ)})"
proof (intro conjI impI)
  assume "\<not> isinstance_int_float rho_arg \<or> number_of rho_arg < 0"
  then show "group_sparse_covariance L signals rho_arg n_iter c rc dbg = Inl (ValueError rho_not_positive)"
    by (simp add: group_sparse_covariance_def)
next
  assume "isinstance_int_float rho_arg \<and> 0 \<le> number_of rho_arg"
  then show "group_sparse_covariance L NotIterable rho_arg n_iter c rc dbg
          = Inl (ValueError signals_not_iterable)"
    by (simp add: group_sparse_covariance_def)
next
  assume h: "isinstance_int_float rho_arg \<and> 0 \<le> number_of rho_arg
        \<and> i < length sigs \<and> j < length sigs \<and> shape1 (sigs ! i) \<noteq> shape1 (sigs ! j)"
  then have "\<exists>a<length (map shape1 sigs). \<exists>b<length (map shape1 sigs).
      map shape1 sigs ! a \<noteq> map shape1 sigs ! b"
    by (intro exI[of _ i] exI[of _ j] conjI) simp_all
  then have r: "1 < length (remdups (map shape1 sigs))"
    by (simp only: remdups_differ)
  from h have ok: "isinstance_int_float rho_arg" "0 \<le> number_of rho_arg" by simp_all
  from ok r show "group_sparse_covariance L (Iterable sigs) rho_arg n_iter c rc dbg
          = Inl (ValueError features_differ)"
    by (simp add: group_sparse_covariance_def del: remdups.simps)
next
  assume h: "isinstance_int_float rho_arg \<and> 0 \<le> number_of rho_arg
        \<and> (\<forall>i<length tasks. \<forall>j<length tasks. shape1 (tasks ! i) = shape1 (tasks ! j))"
  have "map shape1 tasks ! a = map shape1 tasks ! b"
    if ab: "a < length tasks" "b < length tasks" for a b
  proof -
    from h ab have "shape1 (tasks ! a) = shape1 (tasks ! b)" by blast
    with ab show ?thesis by (simp only: nth_map)
  qed
  then have "\<not> (\<exists>a<length (map shape1 tasks). \<exists>b<length (map shape1 tasks).
      map shape1 tasks ! a \<noteq> map shape1 tasks ! b)"
    unfolding length_map by blast
  then have r: "\<not> 1 < length (remdups (map shape1 tasks))"
    by (simp only: remdups_differ simp_thms)
  from h have ok: "isinstance_int_float rho_arg" "0 \<le> number_of rho_arg" by simp_all
  show "group_sparse_covariance L (Iterable tasks) rho_arg n_iter c rc dbg
          \<notin> {Inl (ValueError rho_not_positive), Inl (ValueError signals_not_iterable),
              Inl (ValueError features_differ)}"
  proof (cases "group_sparse_covariance L (Iterable tasks) rho_arg n_iter c rc dbg")
    case (Inr a)
    then show ?thesis by simp
  next
    case (Inl e)
    from validated_errors[OF ok r Inl] Inl show ?thesis by auto
  qed
qed

theorem validation_errors_witness:
  "number_of (PyInt (- 1)) < 0
   \<and> group_sparse_covariance example_libs (Iterable [task_a, task_b]) (PyInt (- 1)) 1 True False False
       = Inl (ValueError rho_not_positive)
   \<and> isinstance_int_float (PyFloat (1 / 2)) \<and> 0 \<le> number_of (PyFloat (1 / 2))
   \<and> group_sparse_covariance example_libs NotIterable (PyFloat (1 / 2)) 1 True False False
       = Inl (ValueError signals_not_iterable)
   \<and> shape1 ([task_a, \<lparr>shape0 = 1, shape1 = 3, samples = [[1, 2, 3]]\<rparr>] ! 0)
       \<noteq> shape1 ([task_a, \<lparr>shape0 = 1, shape1 = 3, samples = [[1, 2, 3]]\<rparr>] ! 1)
   \<and> group_sparse_covariance example_libs
         (Iterable [task_a, \<lparr>shape0 = 1, shape1 = 3, samples = [[1, 2, 3]]\<rparr>])
         (PyFloat (1 / 2)) 1 True False False
       = Inl (ValueError features_differ)
   \<and> shape1 ([task_a, task_b] ! 0) = shape1 ([task_a, task_b] ! 1)
   \<and> group_sparse_covariance example_libs (Iterable [task_a, task_b]) (PyFloat (1 / 2)) 1 True False False
       \<notin> {Inl (ValueError rho_not_positive), Inl (ValueError signals_not_iterable),
           Inl (ValueError features_differ)}"
proof -
  define task_c :: ndarray2 where "task_c = \<lparr>shape0 = 1, shape1 = 3, samples = [[1, 2, 3]]\<rparr>"
  have 1: "\<not> isinstance_int_float (PyInt (- 1)) \<or> number_of (PyInt (- 1)) < 0"
    by (simp add: number_of_def)
  have 2: "isinstance_int_float (PyFloat (1 / 2)) \<and> 0 \<le> number_of (PyFloat (1 / 2))"
    by (simp add: number_of_def isinstance_int_float_def)
  have 3: "(0::nat) < length [task_a, task_c] \<and> (1::nat) < length [task_a, task_c]
      \<and> shape1 ([task_a, task_c] ! 0) \<noteq> shape1 ([task_a, task_c] ! 1)"
    by (simp add: task_a_def task_c_def)
  have 4: "\<forall>i<length [task_a, task_b]. \<forall>j<length [task_a, task_b].
         shape1 ([task_a, task_b] ! i) = shape1 ([task_a, task_b] ! j)"
    by (simp add: task_a_def task_b_def nth_Cons split: nat.splits)
  note v = validation_errors[where L = example_libs and n_iter = 1 and c = True and rc = False
      and dbg = False]
  have "group_sparse_covariance example_libs (Iterable [task_a, task_b]) (PyInt (- 1)) 1 True False False
       = Inl (ValueError rho_not_positive)"
    using v[where rho_arg = "PyInt (- 1)" and signals = "Iterable [task_a, task_b]"] 1 by blast
  moreover have "group_sparse_covariance example_libs NotIterable (PyFloat (1 / 2)) 1 True False False
       = Inl (ValueError signals_not_iterable)"
    using v[where rho_arg = "PyFloat (1 / 2)"] 2 by blast
  moreover have "group_sparse_covariance example_libs (Iterable [task_a, task_c])
         (PyFloat (1 / 2)) 1 True False False = Inl (ValueError features_differ)"
    using v[where rho_arg = "PyFloat (1 / 2)" and sigs = "[task_a, task_c]" and i = 0 and j = 1] 2 3
    by blast
  moreover have "group_sparse_covariance example_libs (Iterable [task_a, task_b]) (PyFloat (1 / 2)) 1 True False False
       \<notin> {Inl (ValueError rho_not_positive), Inl (ValueError signals_not_iterable),
           Inl (ValueError features_differ)}"
    using v[where rho_arg = "PyFloat (1 / 2)" and tasks = "[task_a, task_b]"] 2 4 by blast
  moreover have "number_of (PyInt (- 1)) < 0" by (simp add: number_of_def)
  moreover have "shape1 ([task_a, task_b] ! 0) = shape1 ([task_a, task_b] ! 1)"
    by (simp add: task_a_def task_b_def)
  ultimately show ?thesis
    using 2 3 unfolding task_c_def by blast
qed

section \<open>The pivot update\<close>

text \<open>
  Claim C4. A pivot update that finds the estimate of a task symmetric leaves it symmetric:
  it writes \<open>y\<close> into row \<open>p\<close> and into column \<open>p\<close> alike and sets the one entry
  \<open>[p, p]\<close>. The initial estimates are diagonal, so after any number of pivot updates, and
  in what \<^verbatim>\<open>group_sparse_covariance\<close> returns, every estimate is exactly symmetric.
\<close>

theorem precision_estimates_symmetric:
  "(k < n_tasks E \<and> length (omega s ! k) = n_var E \<and> is_symmetric (omega s ! k)
      \<and> pivot_update L E p s = Inr s'
      \<longrightarrow> is_symmetric (omega s' ! k))
   \<and> (length emp = n_tasks E \<and> pivot_loop L E ps (initial_state E emp) = Inr s''
        \<longrightarrow> list_all is_symmetric (omega s''))
   \<and> (group_sparse_covariance L signals rho_arg n_iter c rc dbg = Inr (emp', om, cs)
        \<longrightarrow> list_all is_symmetric om)"
proof (intro conjI impI)
  assume h: "k < n_tasks E \<and> length (omega s ! k) = n_var E \<and> is_symmetric (omega s ! k)
      \<and> pivot_update L E p s = Inr s'"
  then have "pivot_update L E p s = Inr s'" by simp
  then show "is_symmetric (omega s' ! k)"
    by (rule pivot_update_omega)
       (use h in \<open>simp add: is_symmetric_set_entry is_symmetric_write_back\<close>)
next
  assume h: "length emp = n_tasks E \<and> pivot_loop L E ps (initial_state E emp) = Inr s''"
  from h have le: "length emp = n_tasks E"
    and pl: "pivot_loop L E ps (initial_state E emp) = Inr s''" by simp_all
  note i = initial_state_symmetric[OF le]
  have "length (omega s'') = n_tasks E
      \<and> list_all (\<lambda>M. length M = n_var E \<and> is_symmetric M) (omega s'')"
    by (rule pivot_loop_symmetric[OF pl]) (use i in simp_all)
  then show "list_all is_symmetric (omega s'')" by (simp add: list_all_iff)
next
  assume "group_sparse_covariance L signals rho_arg n_iter c rc dbg = Inr (emp', om, cs)"
  then obtain sigs s where s: "sweep_loop L (solver_env_of sigs rho_arg rc dbg) (nat n_iter)
       (initial_state (solver_env_of sigs rho_arg rc dbg)
          (construct_emp_covs L (shape1 (sigs ! 0)) c sigs)) = Inr s" and om: "om = omega s"
    by (rule group_sparse_covariance_Inr)
  have "length (construct_emp_covs L (shape1 (sigs ! 0)) c sigs)
      = n_tasks (solver_env_of sigs rho_arg rc dbg)"
    by simp
  note i = initial_state_symmetric[OF this]
  have "length (omega s) = n_tasks (solver_env_of sigs rho_arg rc dbg)
      \<and> list_all (\<lambda>M. length M = n_var (solver_env_of sigs rho_arg rc dbg) \<and> is_symmetric M) (omega s)"
    by (rule pivot_loop_symmetric[OF s[unfolded sweep_loop_pivot_loop]]) (use i in simp_all)
  then show "list_all is_symmetric om" by (simp add: om list_all_iff)
qed

theorem precision_estimates_symmetric_witness:
  "1 < n_tasks example_env \<and> length (omega example_after_0 ! 1) = n_var example_env
   \<and> is_symmetric (omega example_after_0 ! 1)
   \<and> pivot_update example_libs example_env 1 example_after_0 = Inr example_after_1
   \<and> is_symmetric (omega example_after_1 ! 1)
   \<and> length (construct_emp_covs example_libs 2 True [task_a, task_b]) = n_tasks example_env
   \<and> pivot_loop example_libs example_env [0, 1]
        (initial_state example_env (construct_emp_covs example_libs 2 True [task_a, task_b]))
       = Inr example_after_1
   \<and> list_all is_symmetric (omega example_after_1)
   \<and> group_sparse_covariance example_libs (Iterable [task_a, task_b]) (PyInt 0) 1 True False False
       = Inr (emp_covs example_after_1, omega example_after_1, None)"
proof -
  have 1: "1 < n_tasks example_env \<and> length (omega example_after_0 ! 1) = n_var example_env"
    by (simp add: example_env_fields example_after_0_def)
  have 2: "is_symmetric (omega example_after_0 ! 1)"
    unfolding example_after_0_def by code_simp
  have 3: "length (construct_emp_covs example_libs 2 True [task_a, task_b]) = n_tasks example_env"
    by (simp add: example_env_fields)
  have 4: "pivot_loop example_libs example_env [0, 1]
        (initial_state example_env (construct_emp_covs example_libs 2 True [task_a, task_b]))
       = Inr example_after_1"
    using example_pivot_loop by (simp add: example_start_def)
  note t = precision_estimates_symmetric[where L = example_libs and E = example_env]
  have "is_symmetric (omega example_after_1 ! 1)"
    using t[where k = 1 and s = example_after_0 and p = 1 and s' = example_after_1]
      1 2 example_pivot_1 by blast
  moreover have "list_all is_symmetric (omega example_after_1)"
    using t[where emp = "construct_emp_covs example_libs 2 True [task_a, task_b]"
        and ps = "[0, 1]" and s'' = example_after_1] 3 4 by blast
  ultimately show ?thesis
    using 1 2 3 4 example_pivot_1 example_run by blast
qed

text \<open>
  Claim C7. When the update of pivot \<open>p\<close> is through, the diagonal entry of every task's
  estimate is \<open>1 / emp_covs[p, p, k] + y\<^sub>k\<^sup>T Winv\<^sub>k y\<^sub>k\<close>, where \<open>y\<^sub>k\<close> is the vector the
  coordinate-descent pass left and the update wrote into row and column \<open>p\<close> off the
  diagonal, and \<open>Winv\<^sub>k\<close> is the inverse the submatrix update left.
\<close>

theorem pivot_diagonal:
  "estimates_shape E (omega s) \<and> p < n_var E \<and> k < n_tasks E \<and> pivot_update L E p s = Inr s'
   \<longrightarrow> omega s' ! k ! p ! p
         = 1 / (emp_covs s' ! k ! p ! p) + dot (vec_mat (y s' ! k) (Winv s' ! k)) (y s' ! k)
       \<and> y s' ! k = delete_at p (omega s' ! k ! p)
       \<and> y s' ! k = delete_at p (col (omega s' ! k) p)
       \<and> (\<exists>s1. update_submatrices L E p s = Inr s1 \<and> Winv s' = Winv s1)"
proof (intro impI)
  assume h: "estimates_shape E (omega s) \<and> p < n_var E \<and> k < n_tasks E
      \<and> pivot_update L E p s = Inr s'"
  then have p: "p < n_var E" and k: "k < n_tasks E" and sh: "estimates_shape E (omega s)"
    by simp_all
  from h have "pivot_update L E p s = Inr s'" by simp
  then obtain s2 s1 where
    1: "update_submatrices L E p s = Inr s1"
    and 2: "coordinate_descent L E p [0..<n_var E - 1] (extract_vectors p s1) = Inr s2"
    and om: "omega s' = map (\<lambda>k. set_entry (write_back (n_var E) p (y s2 ! k) (omega s ! k)) p p
                        (1 / (emp_covs s ! k ! p ! p)
                         + dot (vec_mat (y s2 ! k) (Winv s2 ! k)) (y s2 ! k)))
                  [0..<n_tasks E]"
    and f: "y s' = y s2" "Winv s' = Winv s2" "emp_covs s' = emp_covs s"
    by (elim pivot_update_omega) blast
  have sh1: "estimates_shape E (omega s1)"
    using sh update_submatrices_frame(2)[OF 1] by simp
  have "vectors_shape E (y s2)"
    by (rule coordinate_descent_shape[OF 2 extract_vectors_shape[OF sh1 p]])
  then have ly: "length (y s2 ! k) = n_var E - 1" using k by (rule vectors_shapeD)
  define x where "x = 1 / (emp_covs s ! k ! p ! p) + dot (vec_mat (y s2 ! k) (Winv s2 ! k)) (y s2 ! k)"
  have omk: "omega s' ! k = set_entry (write_back (n_var E) p (y s2 ! k) (omega s ! k)) p p x"
    using k by (simp add: om x_def)
  have sq: "is_square (n_var E) (write_back (n_var E) p (y s2 ! k) (omega s ! k))" by simp
  have d: "omega s' ! k ! p ! p = x"
    unfolding omk using p by (simp add: set_entry_nth[OF sq])
  have r: "delete_at p (omega s' ! k ! p) = y s2 ! k"
    unfolding omk using p write_back_row[OF p ly, of "omega s ! k" x]
    by (simp add: set_entry_def)
  have c: "delete_at p (col (omega s' ! k) p) = y s2 ! k"
    unfolding omk by (rule write_back_col[OF p ly])
  have w: "Winv s2 = Winv s1" using coordinate_descent_frame[OF 2] by simp
  show "omega s' ! k ! p ! p
         = 1 / (emp_covs s' ! k ! p ! p) + dot (vec_mat (y s' ! k) (Winv s' ! k)) (y s' ! k)
       \<and> y s' ! k = delete_at p (omega s' ! k ! p)
       \<and> y s' ! k = delete_at p (col (omega s' ! k) p)
       \<and> (\<exists>s1. update_submatrices L E p s = Inr s1 \<and> Winv s' = Winv s1)"
    using d r c 1 w by (simp add: f x_def)
qed

theorem pivot_diagonal_witness:
  "estimates_shape example_env (omega example_after_0) \<and> 1 < n_var example_env
   \<and> 1 < n_tasks example_env
   \<and> pivot_update example_libs example_env 1 example_after_0 = Inr example_after_1
   \<and> omega example_after_1 ! 1 ! 1 ! 1
       = 1 / (emp_covs example_after_1 ! 1 ! 1 ! 1)
         + dot (vec_mat (y example_after_1 ! 1) (Winv example_after_1 ! 1)) (y example_after_1 ! 1)
   \<and> y example_after_1 ! 1 = delete_at 1 (omega example_after_1 ! 1 ! 1)"
proof -
  have 1: "estimates_shape example_env (omega example_after_0)"
    by (simp add: estimates_shape_def example_env_fields example_after_0_def is_square_def)
  have 2: "1 < n_var example_env \<and> 1 < n_tasks example_env"
    by (simp add: example_env_fields)
  from pivot_diagonal[where E = example_env and s = example_after_0 and p = 1 and k = 1
      and L = example_libs and s' = example_after_1] 1 2 example_pivot_1
  show ?thesis by blast
qed

section \<open>The shared zero pattern\<close>

text \<open>
  Claim C1. In the update of pivot \<open>p\<close>, let the coordinates before \<open>m\<close> have been processed.
  If the norm \<open>c2\<close> of \<open>c\<close> at coordinate \<open>m\<close> is at most \<open>rho\<close>, the step sets
  \<open>y[k][m] = 0\<close> for every task \<open>k\<close> at once; no later coordinate touches that entry, so
  after the write-back the entries of row \<open>p\<close> and of column \<open>p\<close> that coordinate \<open>m\<close> stands
  for are exactly zero in the estimate of every task.
\<close>

theorem shared_sparsity:
  "estimates_shape E (omega s) \<and> p < n_var E \<and> m < n_var E - 1
   \<and> update_submatrices L E p s = Inr s1
   \<and> coordinate_descent L E p [0..<m] (extract_vectors p s1) = Inr sm
   \<and> sqrt (dot (c_vector E p m sm) (c_vector E p m sm)) \<le> rho E
   \<and> pivot_update L E p s = Inr s'
   \<longrightarrow> coordinate_step L E p m sm = Inr (sm\<lparr>y := map (\<lambda>yk. yk[m := 0]) (y sm)\<rparr>)
       \<and> (\<forall>k<n_tasks E.
             map (\<lambda>yk. yk[m := 0]) (y sm) ! k ! m = 0
             \<and> y s' ! k ! m = 0
             \<and> omega s' ! k ! (if m < p then m else m + 1) ! p = 0
             \<and> omega s' ! k ! p ! (if m < p then m else m + 1) = 0)"
proof (intro impI)
  assume h: "estimates_shape E (omega s) \<and> p < n_var E \<and> m < n_var E - 1
   \<and> update_submatrices L E p s = Inr s1
   \<and> coordinate_descent L E p [0..<m] (extract_vectors p s1) = Inr sm
   \<and> sqrt (dot (c_vector E p m sm) (c_vector E p m sm)) \<le> rho E
   \<and> pivot_update L E p s = Inr s'"
  then have sh: "estimates_shape E (omega s)" and p: "p < n_var E" and m: "m < n_var E - 1"
    and 1: "update_submatrices L E p s = Inr s1"
    and pre: "coordinate_descent L E p [0..<m] (extract_vectors p s1) = Inr sm"
    and c2: "sqrt (dot (c_vector E p m sm) (c_vector E p m sm)) \<le> rho E"
    and pu: "pivot_update L E p s = Inr s'"
    by simp_all
  define sm' where "sm' = sm\<lparr>y := map (\<lambda>yk. yk[m := 0]) (y sm)\<rparr>"
  have step: "coordinate_step L E p m sm = Inr sm'"
    unfolding sm'_def using c2 by (rule coordinate_step_zero)
  from pu obtain s2 s1' where
    u1: "update_submatrices L E p s = Inr s1'"
    and 2: "coordinate_descent L E p [0..<n_var E - 1] (extract_vectors p s1') = Inr s2"
    and om: "omega s' = map (\<lambda>k. set_entry (write_back (n_var E) p (y s2 ! k) (omega s ! k)) p p
                        (1 / (emp_covs s ! k ! p ! p)
                         + dot (vec_mat (y s2 ! k) (Winv s2 ! k)) (y s2 ! k)))
                  [0..<n_tasks E]"
    and f: "y s' = y s2"
    by (elim pivot_update_omega) blast
  from 1 u1 have s1: "s1' = s1" by simp
  have split: "[0..<n_var E - 1] = [0..<m] @ m # [Suc m..<n_var E - 1]"
  proof -
    obtain d where d: "n_var E - 1 = m + d" using m by (metis less_imp_add_positive)
    have "[0..<m + d] = [0..<m] @ [m..<m + d]" by (rule upt_add_eq_append) simp
    then have a: "[0..<n_var E - 1] = [0..<m] @ [m..<n_var E - 1]" by (simp only: d)
    have b: "[m..<n_var E - 1] = m # [Suc m..<n_var E - 1]"
      using m by (rule upt_conv_Cons)
    show ?thesis by (subst a, subst b) (rule refl)
  qed
  have rest: "coordinate_descent L E p [Suc m..<n_var E - 1] sm' = Inr s2"
    using 2[unfolded s1 split coordinate_descent_append] pre step by simp
  have sh1: "estimates_shape E (omega s1)"
    using sh update_submatrices_frame(2)[OF 1] by simp
  have vsm: "vectors_shape E (y sm)"
    by (rule coordinate_descent_shape[OF pre extract_vectors_shape[OF sh1 p]])
  have vsm': "vectors_shape E (y sm')"
    by (rule coordinate_step_shape[OF step vsm])
  show "coordinate_step L E p m sm = Inr (sm\<lparr>y := map (\<lambda>yk. yk[m := 0]) (y sm)\<rparr>)
       \<and> (\<forall>k<n_tasks E.
             map (\<lambda>yk. yk[m := 0]) (y sm) ! k ! m = 0
             \<and> y s' ! k ! m = 0
             \<and> omega s' ! k ! (if m < p then m else m + 1) ! p = 0
             \<and> omega s' ! k ! p ! (if m < p then m else m + 1) = 0)"
  proof (intro conjI allI impI)
    show "coordinate_step L E p m sm = Inr (sm\<lparr>y := map (\<lambda>yk. yk[m := 0]) (y sm)\<rparr>)"
      using step by (simp add: sm'_def)
  next
    fix k assume k: "k < n_tasks E"
    have lk: "length (y sm ! k) = n_var E - 1" using vsm k by (rule vectors_shapeD)
    have ly: "length (y sm) = n_tasks E" using vsm by (simp add: vectors_shape_def)
    show z: "map (\<lambda>yk. yk[m := 0]) (y sm) ! k ! m = 0"
      using k m lk ly by simp
    have "y s2 ! k ! m = y sm' ! k ! m"
      by (rule coordinate_descent_other[OF rest vsm' _ k]) simp
    also have "\<dots> = 0" using z by (simp add: sm'_def)
    finally have y0: "y s2 ! k ! m = 0" .
    then show "y s' ! k ! m = 0" by (simp add: f)
    define i where "i = (if m < p then m else m + 1)"
    have i: "i < n_var E" "i \<noteq> p" "(if i < p then i else i - 1) = m"
      using m p by (auto simp: i_def)
    define x where "x = 1 / (emp_covs s ! k ! p ! p) + dot (vec_mat (y s2 ! k) (Winv s2 ! k)) (y s2 ! k)"
    have omk: "omega s' ! k = set_entry (write_back (n_var E) p (y s2 ! k) (omega s ! k)) p p x"
      using k by (simp add: om x_def)
    have sq: "is_square (n_var E) (write_back (n_var E) p (y s2 ! k) (omega s ! k))" by simp
    have "omega s' ! k ! i ! p = write_back (n_var E) p (y s2 ! k) (omega s ! k) ! i ! p"
      unfolding omk using i p by (simp add: set_entry_nth[OF sq])
    also have "\<dots> = y s2 ! k ! m"
      using write_back_entries(1)[OF p i(1,2)] i(3) by simp
    finally show "omega s' ! k ! (if m < p then m else m + 1) ! p = 0"
      using y0 by (simp add: i_def)
    have "omega s' ! k ! p ! i = write_back (n_var E) p (y s2 ! k) (omega s ! k) ! p ! i"
      unfolding omk using i p by (simp add: set_entry_nth[OF sq])
    also have "\<dots> = y s2 ! k ! m"
      using write_back_entries(2)[OF p i(1,2)] i(3) by simp
    finally show "omega s' ! k ! p ! (if m < p then m else m + 1) = 0"
      using y0 by (simp add: i_def)
  qed
qed

theorem shared_sparsity_witness:
  "estimates_shape sparse_env (omega sparse_start) \<and> 0 < n_var sparse_env
   \<and> 0 < n_var sparse_env - 1 \<and> 1 < n_tasks sparse_env
   \<and> update_submatrices example_libs sparse_env 0 sparse_start = Inr example_submatrices
   \<and> coordinate_descent example_libs sparse_env 0 [0..<0] (extract_vectors 0 example_submatrices)
       = Inr (extract_vectors 0 example_submatrices)
   \<and> sqrt (dot (c_vector sparse_env 0 0 (extract_vectors 0 example_submatrices))
              (c_vector sparse_env 0 0 (extract_vectors 0 example_submatrices)))
       \<le> rho sparse_env
   \<and> pivot_update example_libs sparse_env 0 sparse_start = Inr sparse_after_0
   \<and> y sparse_after_0 ! 1 ! 0 = 0
   \<and> omega sparse_after_0 ! 1 ! 1 ! 0 = 0
   \<and> omega sparse_after_0 ! 1 ! 0 ! 1 = 0"
proof -
  have f: "n_tasks sparse_env = 2" "n_var sparse_env = 2" "\<not> return_costs sparse_env"
    by (simp_all add: sparse_env_def task_a_def)
  have 1: "estimates_shape sparse_env (omega sparse_start)" by code_simp
  have 2: "update_submatrices example_libs sparse_env 0 sparse_start = Inr example_submatrices"
    by code_simp
  have 3: "coordinate_descent example_libs sparse_env 0 [0..<0] (extract_vectors 0 example_submatrices)
       = Inr (extract_vectors 0 example_submatrices)"
    by simp
  have "0 \<le> rho sparse_env
      \<and> dot (c_vector sparse_env 0 0 (extract_vectors 0 example_submatrices))
            (c_vector sparse_env 0 0 (extract_vectors 0 example_submatrices))
          \<le> (rho sparse_env)\<^sup>2"
    by code_simp
  then have 4: "sqrt (dot (c_vector sparse_env 0 0 (extract_vectors 0 example_submatrices))
              (c_vector sparse_env 0 0 (extract_vectors 0 example_submatrices)))
       \<le> rho sparse_env"
    by (simp only: sqrt_dot_le_iff)
  have 5: "pivot_update example_libs sparse_env 0 sparse_start = Inr sparse_after_0"
    unfolding pivot_update_no_cost[OF f(3)] by code_simp
  from shared_sparsity[where E = sparse_env and s = sparse_start and p = 0 and m = 0
      and L = example_libs and ?s1.0 = example_submatrices
      and sm = "extract_vectors 0 example_submatrices" and s' = sparse_after_0]
    1 2 3 4 5 f
  have "\<forall>k<n_tasks sparse_env. y sparse_after_0 ! k ! 0 = 0
      \<and> omega sparse_after_0 ! k ! (if (0::nat) < 0 then 0 else 0 + 1) ! 0 = 0
      \<and> omega sparse_after_0 ! k ! 0 ! (if (0::nat) < 0 then 0 else 0 + 1) = 0"
    by simp
  then have "y sparse_after_0 ! 1 ! 0 = 0 \<and> omega sparse_after_0 ! 1 ! 1 ! 0 = 0
      \<and> omega sparse_after_0 ! 1 ! 0 ! 1 = 0"
    using f by simp
  with 1 2 3 4 5 f show ?thesis by simp
qed

section \<open>Non-convergence of the root-find\<close>

text \<open>
  Claim C3 says that the root-find never aborts the solve: after at most fifty
  iterations the solver warns when the residual exceeds \<open>0.1\<close> and goes on with the last
  \<open>alpha\<close>. The source does pass \<^verbatim>\<open>maxiter=50\<close>, and it does warn and go on whenever the
  root-finder returns (\<open>coordinate_step_returns\<close>); but the call of
  \<^verbatim>\<open>scipy.optimize.newton\<close> is not guarded, and when the fifty iterations do not meet the
  tolerance the root-finder raises \<^verbatim>\<open>RuntimeError\<close> instead of returning its last iterate,
  so the warning is never reached and the exception ends the solve
  (\<open>coordinate_step_raises\<close>). This happens for the two tasks \<open>task_a\<close> and \<open>task_b\<close> with
  \<^verbatim>\<open>rho = 0\<close>, one sweep, \<^verbatim>\<open>assume_centered\<close> set, no debugging: at pivot \<open>0\<close>, coordinate
  \<open>0\<close>, the vector \<open>c\<close> is \<open>[0, -1/2]\<close>, so \<open>c2 = 1/2 > rho\<close>, the vector \<open>q\<close> is
  \<open>[1/4, 1/2]\<close>, the root-finder called on this equation raises, the coordinate step
  ends in \<^verbatim>\<open>RuntimeError\<close>, and so does the call of \<^verbatim>\<open>group_sparse_covariance\<close>.
\<close>

theorem newton_failure_aborts:
  "update_submatrices scipy_libs example_env 0 scipy_start = Inr example_submatrices
   \<and> c_vector example_env 0 0 (extract_vectors 0 example_submatrices) = [0, - (1 / 2)]
   \<and> rho example_env = 0
   \<and> map (\<lambda>k. n_samples example_env ! k
                * emp_covs (extract_vectors 0 example_submatrices) ! k ! 0 ! 0
                * (Winv (extract_vectors 0 example_submatrices) ! k ! 0 ! 0))
        [0..<n_tasks example_env] = [1 / 4, 1 / 2]
   \<and> newton scipy_libs (\<lambda>a. quad_trust_region a [1 / 4, 1 / 2] [0, 1 / 4] [0, 1 / 4] 0) 0
        (\<lambda>a. quad_trust_region_deriv a [1 / 4, 1 / 2] [0, 1 / 4] [0, 1 / 4] 0) 50 = None
   \<and> coordinate_step scipy_libs example_env 0 0 (extract_vectors 0 example_submatrices)
       = Inl RuntimeError
   \<and> pivot_update scipy_libs example_env 0 scipy_start = Inl RuntimeError
   \<and> group_sparse_covariance scipy_libs (Iterable [task_a, task_b]) (PyInt 0) 1 True False False
       = Inl RuntimeError"
proof -
  have "newton scipy_libs = scipy_newton" by (simp add: scipy_libs_def)
  then show ?thesis
    using scipy_submatrices scipy_c_vector scipy_q scipy_newton_raises scipy_step
      scipy_pivot_0 scipy_run
    by (simp only: example_env_fields simp_thms)
qed

text \<open>
  The input of this run is one the solver accepts: it passes the three checks, has two
  tasks and two variables; and the call returns no result.
\<close>

theorem newton_failure_aborts_witness:
  "isinstance_int_float (PyInt 0) \<and> 0 \<le> number_of (PyInt 0)
   \<and> length (remdups (map shape1 [task_a, task_b])) \<le> 1
   \<and> length [task_a, task_b] = 2 \<and> shape1 task_a = 2
   \<and> (\<forall>r. group_sparse_covariance scipy_libs (Iterable [task_a, task_b]) (PyInt 0) 1 True False False
          \<noteq> Inr r)"
  using newton_failure_aborts
  by (simp add: isinstance_int_float_def number_of_def task_a_def task_b_def)

section \<open>The iteration budget\<close>

lemma scipy_emp_covs:
  "construct_emp_covs scipy_libs n c sigs = construct_emp_covs example_libs n c sigs"
  by (simp add: construct_emp_covs_def scipy_libs_def example_libs_def)

lemma sparse_env_fields:
  "n_tasks sparse_env = 2" "n_var sparse_env = 2" "rho sparse_env = 1"
  "\<not> return_costs sparse_env" "\<not> debug sparse_env"
  by (simp_all add: sparse_env_def task_a_def number_of_def)

lemma sparse_pivot_0:
  "pivot_update scipy_libs sparse_env 0 sparse_start = Inr sparse_after_0"
  unfolding pivot_update_no_cost[OF sparse_env_fields(4)] by code_simp

lemma sparse_pivot_1:
  "pivot_update scipy_libs sparse_env 1 sparse_after_0 = Inr sparse_after_1"
  unfolding pivot_update_no_cost[OF sparse_env_fields(4)] by code_simp

lemma sparse_pivot_0_again:
  "pivot_update scipy_libs sparse_env 0 sparse_after_1 = Inr sparse_after_0"
  unfolding pivot_update_no_cost[OF sparse_env_fields(4)] by code_simp

lemma sparse_pivot_loop:
  "pivot_loop scipy_libs sparse_env [0, 1, 0, 1, 0, 1] sparse_start = Inr sparse_after_1"
  using sparse_pivot_0 sparse_pivot_1 sparse_pivot_0_again by simp

lemma flat_emp_covs:
  "construct_emp_covs scipy_libs 2 True [task_flat] = [[[1, 0], [0, 0]]]"
  by code_simp

lemma sparse_run:
  "group_sparse_covariance scipy_libs (Iterable [task_a, task_b]) (PyInt 1) 3 True False False
     = Inr (emp_covs sparse_after_1, omega sparse_after_1, None)"
proof -
  have 1: "\<not> length (remdups (map shape1 [task_a, task_b])) > 1"
    by (simp add: task_a_def task_b_def)
  have 2: "solver_env_of [task_a, task_b] (PyInt 1) False False = sparse_env"
    by (simp add: sparse_env_def)
  have 3: "initial_state sparse_env (construct_emp_covs scipy_libs 2 True [task_a, task_b])
      = sparse_start"
    by (simp add: sparse_start_def scipy_emp_covs)
  have "concat (replicate (nat 3) [0..<n_var sparse_env]) = [0, 1, 0, 1, 0, 1]"
    by (simp add: sparse_env_fields upt_conv_Cons eval_nat_numeral)
  then have 4: "sweep_loop scipy_libs sparse_env (nat 3) sparse_start = Inr sparse_after_1"
    using sparse_pivot_loop by (simp only: sweep_loop_pivot_loop)
  show ?thesis
    unfolding group_sparse_covariance_def
    using 1 by (simp add: Let_def 2 3 4 sparse_env_fields isinstance_int_float_def number_of_def
        del: remdups.simps One_nat_def nat_numeral)
qed

text \<open>
  Claim C8, as the source has it. Let \<^verbatim>\<open>signals\<close> be a list of two-dimensional arrays and
  let the arguments pass the three checks, with at least one task and at least two
  variables. Then the call ends in one of three ways. The root-finder raises at some
  coordinate, and its \<^verbatim>\<open>RuntimeError\<close> ends the call. Or \<^verbatim>\<open>debug\<close> is set and an assertion
  fails. Or the solver makes the pivot updates \<open>0, \<dots>, n_var - 1\<close> in this order \<open>n_iter\<close>
  times over, \<open>n_iter * n_var\<close> updates in all, whatever the warnings, and returns the
  empirical covariances and the estimates this leaves, with the cost trace exactly when
  \<^verbatim>\<open>return_costs\<close> is set; the trace has one entry for each pivot update.
\<close>

theorem fixed_iteration_budget:
  "isinstance_int_float rho_arg \<and> 0 \<le> number_of rho_arg
   \<and> sigs \<noteq> [] \<and> (\<forall>t\<in>set sigs. shape1 t = n) \<and> 2 \<le> n
   \<longrightarrow> (group_sparse_covariance L (Iterable sigs) rho_arg n_iter c rc dbg = Inl RuntimeError
        \<and> (\<exists>f g. newton L f 0 g 50 = None))
       \<or> (dbg \<and> group_sparse_covariance L (Iterable sigs) rho_arg n_iter c rc dbg
                = Inl AssertionError)
       \<or> (\<exists>s. pivot_loop L (solver_env_of sigs rho_arg rc dbg)
                 (concat (replicate (nat n_iter) [0..<n]))
                 (initial_state (solver_env_of sigs rho_arg rc dbg)
                    (construct_emp_covs L n c sigs)) = Inr s
              \<and> length (concat (replicate (nat n_iter) [0..<n])) = nat n_iter * n
              \<and> group_sparse_covariance L (Iterable sigs) rho_arg n_iter c rc dbg
                  = Inr (emp_covs s, omega s, if rc then Some (costs s) else None)
              \<and> length (costs s) = (if rc then nat n_iter * n else 0))"
proof (intro impI)
  assume h: "isinstance_int_float rho_arg \<and> 0 \<le> number_of rho_arg
   \<and> sigs \<noteq> [] \<and> (\<forall>t\<in>set sigs. shape1 t = n) \<and> 2 \<le> n"
  then have ok: "isinstance_int_float rho_arg" "0 \<le> number_of rho_arg"
    and ne: "sigs \<noteq> []" and n2: "2 \<le> n" and all: "\<And>t. t \<in> set sigs \<Longrightarrow> shape1 t = n"
    by simp_all
  have n: "shape1 (sigs ! 0) = n" using ne all by (simp add: nth_mem)
  have "map shape1 sigs ! a = map shape1 sigs ! b"
    if "a < length sigs" "b < length sigs" for a b
    using that all by (simp add: nth_mem)
  then have "\<not> (\<exists>a<length (map shape1 sigs). \<exists>b<length (map shape1 sigs).
      map shape1 sigs ! a \<noteq> map shape1 sigs ! b)"
    unfolding length_map by blast
  then have r: "\<not> 1 < length (remdups (map shape1 sigs))"
    by (simp only: remdups_differ simp_thms)
  define E where "E = solver_env_of sigs rho_arg rc dbg"
  define ps where "ps = concat (replicate (nat n_iter) [0..<n])"
  define s0 where "s0 = initial_state E (construct_emp_covs L n c sigs)"
  define res where "res = group_sparse_covariance L (Iterable sigs) rho_arg n_iter c rc dbg"
  have nv: "n_var E = n" and dE: "debug E = dbg" and rE: "return_costs E = rc"
    by (simp_all add: E_def n)
  have lps: "length ps = nat n_iter * n" by (simp add: ps_def length_concat_replicate)
  have sw: "sweep_loop L E (nat n_iter) s0 = pivot_loop L E ps s0"
    by (simp add: sweep_loop_pivot_loop ps_def nv)
  note g = group_sparse_covariance_validated[OF ok r ne, of L n_iter c rc dbg,
      unfolded n, folded E_def, folded s0_def, unfolded sw, folded res_def]
  have "(res = Inl RuntimeError \<and> (\<exists>f g. newton L f 0 g 50 = None))
       \<or> (dbg \<and> res = Inl AssertionError)
       \<or> (\<exists>s. pivot_loop L E ps s0 = Inr s
              \<and> length ps = nat n_iter * n
              \<and> res = Inr (emp_covs s, omega s, if rc then Some (costs s) else None)
              \<and> length (costs s) = (if rc then nat n_iter * n else 0))"
  proof (cases "dbg \<and> \<not> list_all (\<lambda>M. is_spd L M None) (construct_emp_covs L n c sigs)")
    case True
    then show ?thesis using g by simp
  next
    case a: False
    show ?thesis
    proof (cases "pivot_loop L E ps s0")
      case (Inl e)
      from a n2 Inl have res: "res = Inl e" unfolding g by auto
      from pivot_loop_error[OF Inl]
      have "e = AssertionError \<and> dbg \<or> e = RuntimeError \<and> (\<exists>f g. newton L f 0 g 50 = None)"
        by (simp add: dE)
      with res show ?thesis by blast
    next
      case (Inr s)
      have "length (costs s) = (if rc then nat n_iter * n else 0)"
        using pivot_loop_costs[OF Inr] by (simp add: rE lps s0_def)
      with Inr g a n2 lps show ?thesis by simp
    qed
  qed
  then show "(group_sparse_covariance L (Iterable sigs) rho_arg n_iter c rc dbg = Inl RuntimeError
        \<and> (\<exists>f g. newton L f 0 g 50 = None))
       \<or> (dbg \<and> group_sparse_covariance L (Iterable sigs) rho_arg n_iter c rc dbg
                = Inl AssertionError)
       \<or> (\<exists>s. pivot_loop L (solver_env_of sigs rho_arg rc dbg)
                 (concat (replicate (nat n_iter) [0..<n]))
                 (initial_state (solver_env_of sigs rho_arg rc dbg)
                    (construct_emp_covs L n c sigs)) = Inr s
              \<and> length (concat (replicate (nat n_iter) [0..<n])) = nat n_iter * n
              \<and> group_sparse_covariance L (Iterable sigs) rho_arg n_iter c rc dbg
                  = Inr (emp_covs s, omega s, if rc then Some (costs s) else None)
              \<and> length (costs s) = (if rc then nat n_iter * n else 0))"
    unfolding E_def ps_def s0_def res_def .
qed

text \<open>
  A run of the theorem: the two tasks with \<^verbatim>\<open>rho = 1\<close> and three sweeps. Every coordinate
  of this run passes the threshold test, so the root-finder is not called. With the
  root-finder and the check of the library and no cost trace the six pivot updates end
  in the state \<open>sparse_after_1\<close>; with the cost trace the trace has six entries.
\<close>

theorem fixed_iteration_budget_witness:
  "isinstance_int_float (PyInt 1) \<and> 0 \<le> number_of (PyInt 1)
   \<and> [task_a, task_b] \<noteq> [] \<and> shape1 task_a = 2 \<and> shape1 task_b = 2
   \<and> pivot_loop scipy_libs (solver_env_of [task_a, task_b] (PyInt 1) False False)
        (concat (replicate (nat 3) [0..<2]))
        (initial_state (solver_env_of [task_a, task_b] (PyInt 1) False False)
           (construct_emp_covs scipy_libs 2 True [task_a, task_b])) = Inr sparse_after_1
   \<and> group_sparse_covariance scipy_libs (Iterable [task_a, task_b]) (PyInt 1) 3 True False False
       = Inr (emp_covs sparse_after_1, omega sparse_after_1, None)
   \<and> length (costs sparse_after_1) = 0
   \<and> (\<exists>s. pivot_loop example_libs (solver_env_of [task_a, task_b] (PyInt 1) True False)
                 (concat (replicate (nat 3) [0..<2]))
                 (initial_state (solver_env_of [task_a, task_b] (PyInt 1) True False)
                    (construct_emp_covs example_libs 2 True [task_a, task_b])) = Inr s
              \<and> group_sparse_covariance example_libs (Iterable [task_a, task_b]) (PyInt 1) 3 True True False
                  = Inr (emp_covs s, omega s, Some (costs s))
              \<and> length (costs s) = 6)"
proof -
  have 1: "isinstance_int_float (PyInt 1) \<and> 0 \<le> number_of (PyInt 1)"
    by (simp add: isinstance_int_float_def number_of_def)
  have 2: "shape1 task_a = 2" "shape1 task_b = 2" by (simp_all add: task_a_def task_b_def)
  have hyp: "isinstance_int_float (PyInt 1) \<and> 0 \<le> number_of (PyInt 1)
      \<and> [task_a, task_b] \<noteq> [] \<and> (\<forall>t\<in>set [task_a, task_b]. shape1 t = 2) \<and> (2::nat) \<le> 2"
    using 1 2 by simp
  have run: "group_sparse_covariance scipy_libs (Iterable [task_a, task_b]) (PyInt 1) 3 True False False
       = Inr (emp_covs sparse_after_1, omega sparse_after_1, None)"
    by (rule sparse_run)
  from fixed_iteration_budget[where rho_arg = "PyInt 1" and sigs = "[task_a, task_b]" and n = 2
      and dbg = False and n_iter = 3 and c = True and L = scipy_libs and rc = False,
      THEN mp, OF hyp]
  have "\<exists>s. pivot_loop scipy_libs (solver_env_of [task_a, task_b] (PyInt 1) False False)
                 (concat (replicate (nat 3) [0..<2]))
                 (initial_state (solver_env_of [task_a, task_b] (PyInt 1) False False)
                    (construct_emp_covs scipy_libs 2 True [task_a, task_b])) = Inr s
              \<and> group_sparse_covariance scipy_libs (Iterable [task_a, task_b]) (PyInt 1) 3 True False False
                  = Inr (emp_covs s, omega s, None)
              \<and> length (costs s) = 0"
    unfolding run by (simp only: simp_thms if_False sum.distinct) blast
  then obtain s where
    a: "pivot_loop scipy_libs (solver_env_of [task_a, task_b] (PyInt 1) False False)
                 (concat (replicate (nat 3) [0..<2]))
                 (initial_state (solver_env_of [task_a, task_b] (PyInt 1) False False)
                    (construct_emp_covs scipy_libs 2 True [task_a, task_b])) = Inr s"
    and l: "length (costs s) = 0"
    by blast
  have "solver_env_of [task_a, task_b] (PyInt 1) False False = sparse_env"
    by (simp add: sparse_env_def)
  moreover have "initial_state sparse_env (construct_emp_covs scipy_libs 2 True [task_a, task_b])
      = sparse_start"
    by (simp add: sparse_start_def scipy_emp_covs)
  moreover have "concat (replicate (nat 3) [0..<2]) = [0, 1, 0, 1, 0, 1]"
    by (simp add: upt_conv_Cons eval_nat_numeral)
  ultimately have "s = sparse_after_1" using a sparse_pivot_loop by simp
  with a l have A: "pivot_loop scipy_libs (solver_env_of [task_a, task_b] (PyInt 1) False False)
        (concat (replicate (nat 3) [0..<2]))
        (initial_state (solver_env_of [task_a, task_b] (PyInt 1) False False)
           (construct_emp_covs scipy_libs 2 True [task_a, task_b])) = Inr sparse_after_1"
    "length (costs sparse_after_1) = 0"
    by simp_all
  have nn: "\<not> (\<exists>f g. newton example_libs f 0 g 50 = None)"
    by (simp add: example_libs_def)
  from fixed_iteration_budget[where rho_arg = "PyInt 1" and sigs = "[task_a, task_b]" and n = 2
      and dbg = False and n_iter = 3 and c = True and L = example_libs and rc = True,
      THEN mp, OF hyp]
  have "\<exists>s. pivot_loop example_libs (solver_env_of [task_a, task_b] (PyInt 1) True False)
                 (concat (replicate (nat 3) [0..<2]))
                 (initial_state (solver_env_of [task_a, task_b] (PyInt 1) True False)
                    (construct_emp_covs example_libs 2 True [task_a, task_b])) = Inr s
              \<and> length (concat (replicate (nat 3) [0..<2])) = nat 3 * 2
              \<and> group_sparse_covariance example_libs (Iterable [task_a, task_b]) (PyInt 1) 3 True True False
                  = Inr (emp_covs s, omega s, Some (costs s))
              \<and> length (costs s) = nat 3 * 2"
    using nn by (simp only: simp_thms if_True)
  then obtain s' where
    a': "pivot_loop example_libs (solver_env_of [task_a, task_b] (PyInt 1) True False)
                 (concat (replicate (nat 3) [0..<2]))
                 (initial_state (solver_env_of [task_a, task_b] (PyInt 1) True False)
                    (construct_emp_covs example_libs 2 True [task_a, task_b])) = Inr s'"
    and b': "group_sparse_covariance example_libs (Iterable [task_a, task_b]) (PyInt 1) 3 True True False
                  = Inr (emp_covs s', omega s', Some (costs s'))"
    and l': "length (costs s') = nat 3 * 2"
    by blast
  have "length (costs s') = 6" using l' by simp
  with a' b' have B: "\<exists>s. pivot_loop example_libs (solver_env_of [task_a, task_b] (PyInt 1) True False)
                 (concat (replicate (nat 3) [0..<2]))
                 (initial_state (solver_env_of [task_a, task_b] (PyInt 1) True False)
                    (construct_emp_covs example_libs 2 True [task_a, task_b])) = Inr s
              \<and> group_sparse_covariance example_libs (Iterable [task_a, task_b]) (PyInt 1) 3 True True False
                  = Inr (emp_covs s, omega s, Some (costs s))
              \<and> length (costs s) = 6"
    by blast
  from 1 2 A run B show ?thesis by (intro conjI) simp_all
qed

text \<open>
  The claim as stated, for every input the checks accept, fails in each of these runs,
  all with \<^verbatim>\<open>rho = 0\<close> and one sweep. For an empty list of tasks the three checks pass and
  \<^verbatim>\<open>signals[0]\<close> raises \<^verbatim>\<open>IndexError\<close>. For a task with one variable the buffers of
  \<^verbatim>\<open>n_var - 2\<close> columns cannot be allocated. With \<^verbatim>\<open>debug\<close> set and a variable that is
  constantly zero the assertion on the empirical covariance fails. For the two tasks
  \<open>task_a\<close> and \<open>task_b\<close> the root-finder raises at the first coordinate. For a generator of
  these two tasks the checks pass and \<^verbatim>\<open>len(signals)\<close> raises \<^verbatim>\<open>TypeError\<close>.
\<close>

theorem fixed_iteration_budget_counterexample:
  "isinstance_int_float (PyInt 0) \<and> 0 \<le> number_of (PyInt 0)
   \<and> length (remdups (map shape1 [])) \<le> 1
   \<and> group_sparse_covariance scipy_libs (Iterable []) (PyInt 0) 1 True False False
       = Inl IndexError
   \<and> length (remdups (map shape1 [task_single])) \<le> 1
   \<and> group_sparse_covariance scipy_libs (Iterable [task_single]) (PyInt 0) 1 True False False
       = Inl (ValueError negative_dimensions)
   \<and> length (remdups (map shape1 [task_flat])) \<le> 1
   \<and> group_sparse_covariance scipy_libs (Iterable [task_flat]) (PyInt 0) 1 True False True
       = Inl AssertionError
   \<and> length (remdups (map shape1 [task_a, task_b])) \<le> 1
   \<and> group_sparse_covariance scipy_libs (Iterable [task_a, task_b]) (PyInt 0) 1 True False False
       = Inl RuntimeError
   \<and> group_sparse_covariance scipy_libs (Generator [task_a, task_b]) (PyInt 0) 1 True False False
       = Inl TypeError"
proof -
  have ok: "isinstance_int_float (PyInt 0)" "0 \<le> number_of (PyInt 0)"
    by (simp_all add: isinstance_int_float_def number_of_def)
  have r1: "\<not> 1 < length (remdups (map shape1 [task_single]))" by simp
  have r2: "\<not> 1 < length (remdups (map shape1 [task_flat]))" by simp
  have r3: "length (remdups (map shape1 [task_a, task_b])) \<le> 1"
    by (simp add: task_a_def task_b_def)
  have a: "group_sparse_covariance scipy_libs (Iterable []) (PyInt 0) 1 True False False
       = Inl IndexError"
    by (simp add: group_sparse_covariance_def isinstance_int_float_def number_of_def)
  have b: "group_sparse_covariance scipy_libs (Iterable [task_single]) (PyInt 0) 1 True False False
       = Inl (ValueError negative_dimensions)"
    unfolding group_sparse_covariance_validated[OF ok r1 list.distinct(2)]
    by (simp add: task_single_def)
  have c: "group_sparse_covariance scipy_libs (Iterable [task_flat]) (PyInt 0) 1 True False True
       = Inl AssertionError"
  proof -
    have "shape1 ([task_flat] ! 0) = 2" by (simp add: task_flat_def)
    moreover have "\<not> list_all (\<lambda>M. is_spd scipy_libs M None) [[[1, 0], [0, 0]]]"
      by (simp add: scipy_libs_def spd_2x2_def)
    ultimately show ?thesis
      unfolding group_sparse_covariance_validated[OF ok r2 list.distinct(2)]
      by (simp add: flat_emp_covs)
  qed
  have e: "group_sparse_covariance scipy_libs (Generator [task_a, task_b]) (PyInt 0) 1 True False False
       = Inl TypeError"
    using ok r3 by (simp add: group_sparse_covariance_def del: remdups.simps)
  from ok a b c e r1 r2 r3 scipy_run show ?thesis
    by (intro conjI) simp_all
qed

end
